theory Spec2Isabelle
  imports Complex_Main
begin

section \<open>Python values used by the draft environment\<close>

text \<open>
  The development embeds \<^verbatim>\<open>game.py\<close> (class \<^verbatim>\<open>DraftEnv\<close>). Card identities are the
  non-negative integers handed out by \<^verbatim>\<open>_build_maps\<close>; a pack slot holds an identity or
  Python's \<^verbatim>\<open>None\<close>, so a slot is a \<^typ>\<open>nat option\<close>. Exceptions are values of
  \<open>py_error\<close>: the \<^verbatim>\<open>KeyError\<close> of a subscript on a missing dictionary key, the
  \<^verbatim>\<open>AttributeError\<close> of reading an attribute that the object does not have yet, the
  \<^verbatim>\<open>ZeroDivisionError\<close> of a division, the errors that gymnasium
  (\<^verbatim>\<open>gymnasium.error.Error\<close>) and numpy (\<^verbatim>\<open>ValueError\<close>) raise for a seed they do not
  accept, and whatever the external match arbiter (\<^verbatim>\<open>test_in_parralell\<close>: file output
  and a Java subprocess) may raise. The code defines no exception class and has no
  \<^verbatim>\<open>raise\<close> or \<^verbatim>\<open>except\<close> of its own.
\<close>

datatype py_error =
    KeyError string
  | AttributeError string
  | ZeroDivisionError
  | GymnasiumError
  | ValueError
  | ExternalError string

type_synonym pack = "nat option list"

text \<open>
  A catalog record is a JSON object. A field that the object does not have is
  \<open>None\<close>; \<^verbatim>\<open>card["name"]\<close> raises on it, \<^verbatim>\<open>card.get(key, default)\<close> yields the
  default.
\<close>

record card =
  name :: "string option"
  color_identity :: "string list option"
  rarity :: "string option"
  is_basic_land :: "bool option"

text \<open>
  \<^verbatim>\<open>str.lower\<close> on the ASCII letters. The only use is the membership test of the
  lowered rarity label among the five ASCII pool keys, and no non-ASCII character lowers
  to a string of ASCII letters that occurs in one of these keys, so leaving the other
  characters alone does not change which pool a record lands in.
\<close>

definition lower_char :: "char \<Rightarrow> char" where
  "lower_char c =
     (let n = (of_char c :: nat) in if 65 \<le> n \<and> n \<le> 90 then char_of (n + 32) else c)"

definition lower :: "string \<Rightarrow> string" where
  "lower s = map lower_char s"

section \<open>The catalog index: \<^verbatim>\<open>_build_maps\<close>\<close>

text \<open>
  The four dictionaries returned by \<^verbatim>\<open>_build_maps\<close>. \<open>rarity_pools\<close> is created with
  the five keys \<^verbatim>\<open>common, uncommon, rare, mythic, basic_land\<close>, each bound to a list that
  grows by \<^verbatim>\<open>append\<close>.
\<close>

record catalog =
  card_id_map :: "string \<rightharpoonup> nat"
  id_card_map :: "nat \<rightharpoonup> string"
  rarity_pools :: "string \<rightharpoonup> nat list"
  card_color_identity :: "nat \<rightharpoonup> string list"

definition pool :: "(string \<rightharpoonup> nat list) \<Rightarrow> string \<Rightarrow> nat list" where
  "pool pools k = (case pools k of Some xs \<Rightarrow> xs | None \<Rightarrow> [])"

definition empty_catalog :: catalog where
  "empty_catalog =
     \<lparr>card_id_map = Map.empty,
      id_card_map = Map.empty,
      rarity_pools = [''common'' \<mapsto> [], ''uncommon'' \<mapsto> [], ''rare'' \<mapsto> [],
                      ''mythic'' \<mapsto> [], ''basic_land'' \<mapsto> []],
      card_color_identity = Map.empty\<rparr>"

text \<open>
  One iteration of the loop over \<^verbatim>\<open>cards_data\<close>; the loop state is the four
  dictionaries and the counter \<^verbatim>\<open>idx\<close>. A record without a name raises
  \<^verbatim>\<open>KeyError('name')\<close> at \<^verbatim>\<open>card["name"]\<close>, before anything is changed.
\<close>

definition build_card :: "card \<Rightarrow> catalog \<times> nat \<Rightarrow> py_error + catalog \<times> nat" where
  "build_card c st =
     (case st of (m, idx) \<Rightarrow>
        (case name c of
           None \<Rightarrow> Inl (KeyError ''name'')
         | Some card_name \<Rightarrow>
             (let (m1, idx1, cid) =
                    (case card_id_map m card_name of
                       None \<Rightarrow>
                         (m\<lparr>card_id_map := (card_id_map m)(card_name \<mapsto> idx),
                            id_card_map := (id_card_map m)(idx \<mapsto> card_name)\<rparr>,
                          idx + 1, idx)
                     | Some i \<Rightarrow> (m, idx, i));
                  c_identity = (case color_identity c of Some ci \<Rightarrow> ci | None \<Rightarrow> []);
                  m2 = m1\<lparr>card_color_identity := (card_color_identity m1)(cid \<mapsto> c_identity)\<rparr>
              in if (case is_basic_land c of Some b \<Rightarrow> b | None \<Rightarrow> False)
                 then Inr (m2\<lparr>rarity_pools :=
                              (rarity_pools m2)(''basic_land'' \<mapsto>
                                 pool (rarity_pools m2) ''basic_land'' @ [cid])\<rparr>, idx1)
                 else (let rar = lower (case rarity c of Some r \<Rightarrow> r | None \<Rightarrow> [])
                       in case rarity_pools m2 rar of
                            Some xs \<Rightarrow>
                              Inr (m2\<lparr>rarity_pools := (rarity_pools m2)(rar \<mapsto> xs @ [cid])\<rparr>, idx1)
                          | None \<Rightarrow> Inr (m2, idx1)))))"

fun build_loop :: "card list \<Rightarrow> catalog \<times> nat \<Rightarrow> py_error + catalog \<times> nat" where
  "build_loop [] st = Inr st"
| "build_loop (c # cs) st =
     (case build_card c st of Inl e \<Rightarrow> Inl e | Inr st' \<Rightarrow> build_loop cs st')"

text \<open>
  \<^verbatim>\<open>_build_maps\<close> returns the four dictionaries. The final value of \<^verbatim>\<open>idx\<close> is kept
  beside them: it is \<^verbatim>\<open>len(card_id_map)\<close>, which the constructor stores as
  \<^verbatim>\<open>num_cards_total\<close> (lemma \<open>build_loop_inv\<close> below).
\<close>

definition build_maps :: "card list \<Rightarrow> py_error + catalog \<times> nat" where
  "build_maps cards_data = build_loop cards_data (empty_catalog, 0)"

section \<open>The random source\<close>

text \<open>
  The module-global generator of Python's \<^verbatim>\<open>random\<close> is deterministic: its state fixes
  every later draw. It is modelled by the sequence of its future raw draws (\<open>tape\<close>) and
  the number of draws consumed (\<open>pos\<close>); every theorem below holds for every tape.
  \<^verbatim>\<open>random.choice\<close> and \<^verbatim>\<open>random.sample\<close> are functions of the standard library, not of
  this repository; they are modelled from their documented contract, not from CPython's
  source. \<^verbatim>\<open>random.choice(seq)\<close> returns the element at a position below \<^verbatim>\<open>len(seq)\<close>
  (its callers test that \<^verbatim>\<open>seq\<close> is not empty); \<^verbatim>\<open>random.sample(seq, k)\<close> returns the
  elements at \<open>k\<close> pairwise different positions (its callers test
  \<^verbatim>\<open>len(seq) >= k\<close>). One entry of the tape is one position drawn. CPython draws the
  positions by another algorithm (it may reject and redraw, and lists the sample in another
  order), so for a given seed the packs of the model are not the packs of CPython; what
  is proved about \<open>sample\<close> is its length, that its members are members of the
  population, and that they stand at different positions, which hold of both. Seeding,
  \<^verbatim>\<open>random.seed(seed)\<close>, replaces the state by one that depends on the seed only: a
  function \<open>mt\<close> from seeds to generator states, a parameter of \<open>reset\<close>.
\<close>

record rng =
  tape :: "nat \<Rightarrow> nat"
  pos :: nat

definition randbelow :: "rng \<Rightarrow> nat \<Rightarrow> nat \<times> rng" where
  "randbelow g n = (tape g (pos g) mod n, g\<lparr>pos := Suc (pos g)\<rparr>)"

definition choice :: "rng \<Rightarrow> 'a list \<Rightarrow> 'a \<times> rng" where
  "choice g xs = (let (j, g1) = randbelow g (length xs) in (xs ! j, g1))"

text \<open>
  \<open>sample\<close> draws \<open>k\<close> times from what is left of the population: the loop state
  is the remaining population, the result so far and the generator.
\<close>

definition sample_draw :: "nat \<Rightarrow> 'a list \<times> 'a list \<times> rng \<Rightarrow> 'a list \<times> 'a list \<times> rng" where
  "sample_draw i st =
     (case st of (rest, result, g) \<Rightarrow>
        (case randbelow g (length rest) of (j, g1) \<Rightarrow>
           (take j rest @ drop (Suc j) rest, result @ [rest ! j], g1)))"

definition sample :: "rng \<Rightarrow> 'a list \<Rightarrow> nat \<Rightarrow> 'a list \<times> rng" where
  "sample g xs k =
     (case fold sample_draw [0..<k] (xs, [], g) of (rest, result, g1) \<Rightarrow> (result, g1))"

section \<open>The pack generator: \<^verbatim>\<open>make_pack\<close>\<close>

definition num_players :: nat where
  "num_players = 8"

definition num_packs :: nat where
  "num_packs = 3"

definition cards_per_pack :: nat where
  "cards_per_pack = 15"

text \<open>
  \<^verbatim>\<open>pack_ids\<close> is threaded through the four stages of \<^verbatim>\<open>make_pack\<close> together with
  the generator; each stage appends to it. The final
  \<^verbatim>\<open>while len(pack_ids) < 15: pack_ids.append(None)\<close> appends \<open>15 - len(pack_ids)\<close> copies
  of \<^verbatim>\<open>None\<close>.
\<close>

definition draw_basic_land :: "(string \<rightharpoonup> nat list) \<Rightarrow> pack \<times> rng \<Rightarrow> pack \<times> rng" where
  "draw_basic_land pools st =
     (case st of (pack_ids, g) \<Rightarrow>
        if pool pools ''basic_land'' \<noteq> []
        then (case choice g (pool pools ''basic_land'') of
                (x, g1) \<Rightarrow> (pack_ids @ [Some x], g1))
        else (pack_ids, g))"

definition draw_commons :: "(string \<rightharpoonup> nat list) \<Rightarrow> pack \<times> rng \<Rightarrow> pack \<times> rng" where
  "draw_commons pools st =
     (case st of (pack_ids, g) \<Rightarrow>
        if 10 \<le> length (pool pools ''common'')
        then (case sample g (pool pools ''common'') 10 of
                (xs, g1) \<Rightarrow> (pack_ids @ map Some xs, g1))
        else (pack_ids @ map Some (pool pools ''common''), g))"

definition draw_uncommons :: "(string \<rightharpoonup> nat list) \<Rightarrow> pack \<times> rng \<Rightarrow> pack \<times> rng" where
  "draw_uncommons pools st =
     (case st of (pack_ids, g) \<Rightarrow>
        if 3 \<le> length (pool pools ''uncommon'')
        then (case sample g (pool pools ''uncommon'') 3 of
                (xs, g1) \<Rightarrow> (pack_ids @ map Some xs, g1))
        else (pack_ids @ map Some (pool pools ''uncommon''), g))"

definition draw_rare :: "(string \<rightharpoonup> nat list) \<Rightarrow> pack \<times> rng \<Rightarrow> pack \<times> rng" where
  "draw_rare pools st =
     (case st of (pack_ids, g) \<Rightarrow>
        (let rare_or_mythic = pool pools ''rare'' @ pool pools ''mythic''
         in if rare_or_mythic \<noteq> []
            then (case choice g rare_or_mythic of (x, g1) \<Rightarrow> (pack_ids @ [Some x], g1))
            else (pack_ids, g)))"

definition make_pack :: "(string \<rightharpoonup> nat list) \<Rightarrow> rng \<Rightarrow> pack \<times> rng" where
  "make_pack pools g =
     (case draw_rare pools (draw_uncommons pools (draw_commons pools
             (draw_basic_land pools ([], g)))) of
        (pack_ids, g1) \<Rightarrow>
          (let ids = take cards_per_pack pack_ids
           in (ids @ replicate (cards_per_pack - length ids) None, g1)))"

section \<open>The environment: the fields of \<^verbatim>\<open>DraftEnv\<close>\<close>

text \<open>
  The object's attributes, in one record that extends the catalog. The constructor
  does not create \<^verbatim>\<open>all_packs_by_round\<close> and \<^verbatim>\<open>pack_holder\<close> (\<^verbatim>\<open>reset\<close> does): until
  then the two attributes are \<open>None\<close> here, and reading one of them raises
  \<^verbatim>\<open>AttributeError\<close>. \<^verbatim>\<open>basic_land_ids\<close> is a dictionary on the five colour symbols whose
  values are identities or \<^verbatim>\<open>None\<close>.
\<close>

record env = catalog +
  num_cards_total :: nat
  user_picks :: "nat list"
  basic_land_ids :: "string \<Rightarrow> nat option"
  round_idx :: nat
  pick_idx :: nat
  done_drafting :: bool
  all_packs_by_round :: "pack list list option"
  pack_holder :: "nat list option"

definition DraftEnv_init :: "card list \<Rightarrow> py_error + env" where
  "DraftEnv_init all_fdn_cards =
     (case build_maps all_fdn_cards of
        Inl err \<Rightarrow> Inl err
      | Inr (m, n) \<Rightarrow>
          Inr \<lparr>card_id_map = card_id_map m,
               id_card_map = id_card_map m,
               rarity_pools = rarity_pools m,
               card_color_identity = card_color_identity m,
               num_cards_total = n,
               user_picks = [],
               basic_land_ids = (\<lambda>c. None),
               round_idx = 0,
               pick_idx = 0,
               done_drafting = False,
               all_packs_by_round = None,
               pack_holder = None\<rparr>)"

subsection \<open>Observation and mask\<close>

text \<open>
  The observation is the \<open>60 \<times> num_cards_total\<close> matrix of zeros and ones, a list of
  rows. \<^verbatim>\<open>obs[i, c] = 1.0\<close> sets one entry; on every table built by \<^verbatim>\<open>reset\<close> the row
  is below 60 and the column is an identity of the catalog.
\<close>

type_synonym obs = "rat list list"

definition set_entry :: "obs \<Rightarrow> nat \<Rightarrow> nat \<Rightarrow> obs" where
  "set_entry ob i c = ob[i := (ob ! i)[c := 1]]"

text \<open>
  \<^verbatim>\<open>self.all_packs_by_round[self.round_idx][self.pack_holder[0]]\<close>, after
  \<^verbatim>\<open>self.pack_holder[0]\<close> has been read: the pack in the hand of seat 0.
\<close>

definition user_pack_of :: "env \<Rightarrow> py_error + pack" where
  "user_pack_of e =
     (case pack_holder e of
        None \<Rightarrow> Inl (AttributeError ''pack_holder'')
      | Some holder \<Rightarrow>
          (case all_packs_by_round e of
             None \<Rightarrow> Inl (AttributeError ''all_packs_by_round'')
           | Some all_packs \<Rightarrow> Inr (all_packs ! round_idx e ! (holder ! 0))))"

definition build_observation :: "env \<Rightarrow> py_error + obs" where
  "build_observation e =
     (let obs0 = replicate 60 (replicate (num_cards_total e) 0);
          obs1 = fold (\<lambda>(i, card_id) ob. if i < 45 then set_entry ob i card_id else ob)
                      (enumerate 0 (user_picks e)) obs0
      in if done_drafting e then Inr obs1
         else (case user_pack_of e of
                 Inl err \<Rightarrow> Inl err
               | Inr user_pack \<Rightarrow>
                   Inr (fold (\<lambda>(slot_i, c) ob.
                                case c of
                                  Some cid \<Rightarrow>
                                    if 45 + slot_i < 60 then set_entry ob (45 + slot_i) cid else ob
                                | None \<Rightarrow> ob)
                             (enumerate 0 user_pack) obs1)))"

definition get_mask :: "env \<Rightarrow> py_error + bool list" where
  "get_mask e =
     (if done_drafting e then Inr (replicate 15 False)
      else (case user_pack_of e of
              Inl err \<Rightarrow> Inl err
            | Inr user_pack \<Rightarrow> Inr (map (\<lambda>c. c \<noteq> None) user_pack)))"

subsection \<open>Deck assembly: \<^verbatim>\<open>_populate_basic_land_ids\<close> and \<^verbatim>\<open>build_deck\<close>\<close>

definition populate_one :: "(nat \<rightharpoonup> string list) \<Rightarrow> nat \<Rightarrow> (string \<Rightarrow> nat option) \<Rightarrow> (string \<Rightarrow> nat option)" where
  "populate_one cci land_id ids =
     (let ci = cci land_id
      in if ci = Some [''W''] then ids(''W'' := Some land_id)
         else if ci = Some [''U''] then ids(''U'' := Some land_id)
         else if ci = Some [''B''] then ids(''B'' := Some land_id)
         else if ci = Some [''R''] then ids(''R'' := Some land_id)
         else if ci = Some [''G''] then ids(''G'' := Some land_id)
         else ids)"

definition populate_basic_land_ids :: "env \<Rightarrow> env" where
  "populate_basic_land_ids e =
     e\<lparr>basic_land_ids :=
         fold (populate_one (card_color_identity e))
              (pool (rarity_pools e) ''basic_land'') (basic_land_ids e)\<rparr>"

text \<open>
  \<^verbatim>\<open>xs[:n]\<close> and \<^verbatim>\<open>[x] * n\<close> for a Python integer \<open>n\<close>: a negative bound of a slice
  counts from the end, a negative repetition count gives the empty list.
\<close>

definition slice_to :: "'a list \<Rightarrow> int \<Rightarrow> 'a list" where
  "slice_to xs n =
     (if 0 \<le> n then take (nat n) xs else take (nat (int (length xs) + n)) xs)"

definition times :: "'a \<Rightarrow> int \<Rightarrow> 'a list" where
  "times x n = replicate (nat n) x"

text \<open>
  \<^verbatim>\<open>color_counts\<close> is a dictionary created with the keys \<^verbatim>\<open>W, U, B, R, G\<close> in this
  order, which is the order of \<^verbatim>\<open>items()\<close> and of \<^verbatim>\<open>max\<close>: an association list.
\<close>

definition count_color :: "string \<Rightarrow> (string \<times> nat) list \<Rightarrow> (string \<times> nat) list" where
  "count_color c color_counts = map (\<lambda>(k, v). if k = c then (k, v + 1) else (k, v)) color_counts"

definition count_colors :: "(nat \<rightharpoonup> string list) \<Rightarrow> nat list \<Rightarrow> (string \<times> nat) list" where
  "count_colors cci main_deck =
     fold (\<lambda>cid color_counts.
             fold count_color (case cci cid of Some colors \<Rightarrow> colors | None \<Rightarrow> []) color_counts)
          main_deck
          [(''W'', 0), (''U'', 0), (''B'', 0), (''R'', 0), (''G'', 0)]"

text \<open>
  \<^verbatim>\<open>int(round(c_count / total_colors * land_count))\<close> is computed in binary floating
  point. A double is modelled by a pair \<open>(m, x)\<close> of integers that stands for
  \<open>m * 2 ^ x\<close>, with \<open>m\<close> of at most 53 bits (or \<open>2 ^ 53\<close> itself after a carry). The
  quotient of two integers, the conversion of the integer \<^verbatim>\<open>land_count\<close> and the product
  are each rounded to the nearest double, a tie to the even mantissa, as IEEE 754 and
  CPython's integer division do; \<^verbatim>\<open>round\<close> then rounds the double to the nearest
  integer, a tie to the even one. The range of the exponent is not modelled (no overflow,
  no subnormal numbers): the quantities of \<^verbatim>\<open>build_deck\<close> are far from its ends unless
  \<^verbatim>\<open>land_count\<close> is beyond \<open>10 ^ 300\<close>.
\<close>

definition round_half_even :: "int \<Rightarrow> int \<Rightarrow> int" where
  "round_half_even a b =
     (let q = a div b; r = a mod b
      in if 2 * r < b then q else if b < 2 * r then q + 1 else if even q then q else q + 1)"

function bit_length :: "int \<Rightarrow> nat" where
  "bit_length n = (if n \<le> 0 then 0 else Suc (bit_length (n div 2)))"
  by auto
termination
  by (relation "measure nat") auto

declare bit_length.simps [simp del]

type_synonym float = "int \<times> int"

definition float_norm :: "int \<Rightarrow> int \<Rightarrow> float" where
  "float_norm m x =
     (let n = bit_length \<bar>m\<bar>
      in if n \<le> 53 then (m, x)
         else (round_half_even m (2 ^ (n - 53)), x + int (n - 53)))"

definition float_of_int :: "int \<Rightarrow> float" where
  "float_of_int i = float_norm i 0"

text \<open>\<open>a / b\<close> for integers \<open>0 \<le> a\<close> and \<open>0 < b\<close>.\<close>

definition float_div :: "int \<Rightarrow> int \<Rightarrow> float" where
  "float_div a b =
     (if a = 0 then (0, 0)
      else (let e0 = int (bit_length a) - int (bit_length b);
                e = (if (if 0 \<le> e0 then b * 2 ^ nat e0 \<le> a else b \<le> a * 2 ^ nat (- e0))
                     then e0 else e0 - 1);
                t = 52 - e
            in if 0 \<le> t then (round_half_even (a * 2 ^ nat t) b, - t)
               else (round_half_even a (b * 2 ^ nat (- t)), - t)))"

definition float_mul :: "float \<Rightarrow> float \<Rightarrow> float" where
  "float_mul f1 f2 =
     (case f1 of (m1, x1) \<Rightarrow> (case f2 of (m2, x2) \<Rightarrow> float_norm (m1 * m2) (x1 + x2)))"

definition float_round :: "float \<Rightarrow> int" where
  "float_round f =
     (case f of (m, x) \<Rightarrow>
        if 0 \<le> x then m * 2 ^ nat x else round_half_even m (2 ^ nat (- x)))"

definition allot :: "(string \<Rightarrow> nat option) \<Rightarrow> int \<Rightarrow> nat \<Rightarrow> string \<times> nat \<Rightarrow> nat option list \<times> int \<Rightarrow> nat option list \<times> int" where
  "allot ids land_count total_colors kv acc =
     (case kv of (c_symbol, c_count) \<Rightarrow>
        (case acc of (land_ids, used) \<Rightarrow>
           (let fraction = float_div (int c_count) (int total_colors);
                portion = float_round (float_mul fraction (float_of_int land_count))
            in case ids c_symbol of
                 Some land_id \<Rightarrow> (land_ids @ times (Some land_id) portion, used + portion)
               | None \<Rightarrow> (land_ids, used))))"

text \<open>
  \<^verbatim>\<open>max(color_counts, key=color_counts.get)\<close> is the first key, in dictionary order,
  whose count is maximal: the scan replaces its candidate on a strictly larger count only.
\<close>

definition max_key :: "(string \<times> nat) list \<Rightarrow> string" where
  "max_key color_counts =
     fst (fold (\<lambda>(k, v) (bk, bv). if bv < v then (k, v) else (bk, bv))
               (tl color_counts) (hd color_counts))"

text \<open>
  \<^verbatim>\<open>a or b\<close> on identities: \<^verbatim>\<open>None\<close> and the identity \<open>0\<close> are both falsy.
\<close>

definition py_or :: "nat option \<Rightarrow> nat option \<Rightarrow> nat option" where
  "py_or a b = (case a of Some x \<Rightarrow> if x \<noteq> 0 then Some x else b | None \<Rightarrow> b)"

definition build_deck :: "env \<Rightarrow> int \<Rightarrow> int \<Rightarrow> int \<Rightarrow> nat option list" where
  "build_deck e deck_size main_count land_count =
     (let main_deck = slice_to (user_picks e) main_count;
          color_counts = count_colors (card_color_identity e) main_deck;
          total_colors = sum_list (map snd color_counts)
      in if total_colors = 0
         then map Some main_deck @ times (basic_land_ids e ''U'') land_count
         else (let (land_ids, used) =
                     fold (allot (basic_land_ids e) land_count total_colors) color_counts ([], 0);
                   diff = land_count - used
               in if 0 < diff
                  then map Some main_deck @ land_ids @
                       times (py_or (basic_land_ids e (max_key color_counts))
                                    (basic_land_ids e ''U'')) diff
                  else map Some main_deck @ land_ids))"

subsection \<open>\<^verbatim>\<open>reset\<close>\<close>

text \<open>
  The generator is a module global, not a field of the object: a state of the whole
  program is a pair of a generator and an environment.
\<close>

type_synonym world = "rng \<times> env"

definition make_packs :: "(string \<rightharpoonup> nat list) \<Rightarrow> nat \<Rightarrow> rng \<Rightarrow> pack list \<times> rng" where
  "make_packs pools n g =
     fold (\<lambda>i (round_packs, g1).
             case make_pack pools g1 of (p, g2) \<Rightarrow> (round_packs @ [p], g2))
          [0..<n] ([], g)"

definition make_rounds :: "(string \<rightharpoonup> nat list) \<Rightarrow> nat \<Rightarrow> rng \<Rightarrow> pack list list \<times> rng" where
  "make_rounds pools n g =
     fold (\<lambda>i (all_packs, g1).
             case make_packs pools num_players g1 of
               (round_packs, g2) \<Rightarrow> (all_packs @ [round_packs], g2))
          [0..<n] ([], g)"

text \<open>
  \<open>reset\<close> is the call for no seed or for a seed that passes the two checks made on
  the way: \<^verbatim>\<open>super().reset(seed=seed)\<close> (gymnasium) raises for a negative seed, before
  anything is changed, and \<^verbatim>\<open>np.random.seed(seed)\<close> raises for a seed of \<open>2 ^ 32\<close> or
  more, after \<^verbatim>\<open>random.seed(seed)\<close> has reseeded the generator and before the table is
  touched. \<open>reset_checked\<close> is the call for any integer seed.
\<close>

definition reset :: "(int \<Rightarrow> rng) \<Rightarrow> int option \<Rightarrow> world \<Rightarrow> world \<times> (py_error + obs)" where
  "reset mt seed w =
     (case w of (g, e) \<Rightarrow>
        (let g0 = (case seed of Some sd \<Rightarrow> mt sd | None \<Rightarrow> g);
             (packs, g1) = make_rounds (rarity_pools e) num_packs g0;
             e1 = e\<lparr>round_idx := 0, pick_idx := 0, done_drafting := False, user_picks := [],
                    all_packs_by_round := Some packs,
                    pack_holder := Some [0..<num_players]\<rparr>;
             e2 = populate_basic_land_ids e1
         in ((g1, e2), build_observation e2)))"

definition seed_ok :: "int \<Rightarrow> bool" where
  "seed_ok sd \<longleftrightarrow> 0 \<le> sd \<and> sd < 2 ^ 32"

definition reset_checked :: "(int \<Rightarrow> rng) \<Rightarrow> int option \<Rightarrow> world \<Rightarrow> world \<times> (py_error + obs)" where
  "reset_checked mt seed w =
     (case seed of
        None \<Rightarrow> reset mt None w
      | Some sd \<Rightarrow>
          if sd < 0 then (w, Inl GymnasiumError)
          else if 2 ^ 32 \<le> sd then ((mt sd, snd w), Inl ValueError)
          else reset mt (Some sd) w)"

subsection \<open>\<^verbatim>\<open>step\<close>\<close>

text \<open>
  What a call of \<^verbatim>\<open>step\<close> yields: the 4-tuple of the early returns, the 5-tuple of
  the two returns after a pick, or an exception, which \<^verbatim>\<open>step\<close> does not catch: of the
  match arbiter, or of reading the table before the first \<^verbatim>\<open>reset\<close>. The last component
  of both tuples is the empty dictionary and is left out.
\<close>

datatype step_result =
    Ret4 obs rat bool
  | Ret5 obs rat bool bool
  | Raised py_error

text \<open>
  The arbiter \<^verbatim>\<open>test_in_parralell\<close> writes the deck to a file and plays it in a
  subprocess; it returns a list of (opponent deck, winner, duration) or raises. It is a
  parameter of \<open>step\<close>.
\<close>

type_synonym arbiter = "nat option list \<Rightarrow> py_error + (string \<times> int \<times> int) list"

definition valid_slots :: "pack \<Rightarrow> nat list" where
  "valid_slots pack_cards = filter (\<lambda>i. pack_cards ! i \<noteq> None) [0..<length pack_cards]"

definition seat_pick :: "nat list \<Rightarrow> nat \<Rightarrow> pack list \<times> rng \<Rightarrow> pack list \<times> rng" where
  "seat_pick holder seat st =
     (case st of (packs, g) \<Rightarrow>
        (let pack_index = holder ! seat;
             pack_cards = packs ! pack_index;
             vs = valid_slots pack_cards
         in if vs \<noteq> []
            then (let (chosen_idx, g1) = choice g vs
                  in (packs[pack_index := pack_cards[chosen_idx := None]], g1))
            else (packs, g)))"

text \<open>
  \<^verbatim>\<open>new_holder\<close> starts as eight \<^verbatim>\<open>None\<close>s and the loop assigns every position, since
  \<open>seat \<mapsto> (seat + 1) mod 8\<close> is onto; the initial entries are never read, and are
  \<open>0\<close> here.
\<close>

definition pass_right :: "nat list \<Rightarrow> nat list" where
  "pass_right holder =
     fold (\<lambda>seat new_holder. new_holder[(seat + 1) mod num_players := holder ! seat])
          [0..<num_players] (replicate num_players 0)"

definition win_rate :: "(string \<times> int \<times> int) list \<Rightarrow> rat" where
  "win_rate results =
     of_nat (length (filter (\<lambda>(d2, winner, duration). winner = 1) results)) /
     of_nat (length results)"

text \<open>
  An action is accepted when the table exists and none of the three early returns fires.
\<close>

definition accepted :: "env \<Rightarrow> int \<Rightarrow> bool" where
  "accepted e action \<longleftrightarrow>
     \<not> done_drafting e \<and> 0 \<le> action \<and> action < int cards_per_pack \<and>
     (case user_pack_of e of Inl err \<Rightarrow> False | Inr user_pack \<Rightarrow> user_pack ! nat action \<noteq> None)"

text \<open>
  Step 4 and the test of step 5 of \<^verbatim>\<open>step\<close>: the pick counter, the change of round
  (with new hands only if a round remains), and the terminal flag.
\<close>

definition advance :: "env \<Rightarrow> env" where
  "advance e =
     (let e1 = e\<lparr>pick_idx := pick_idx e + 1\<rparr>;
          e2 = (if cards_per_pack \<le> pick_idx e1
                then (let e' = e1\<lparr>round_idx := round_idx e1 + 1, pick_idx := 0\<rparr>
                      in if round_idx e' < num_packs
                         then e'\<lparr>pack_holder := Some [0..<num_players]\<rparr> else e')
                else e1)
      in if num_packs \<le> round_idx e2 then e2\<lparr>done_drafting := True\<rparr> else e2)"

text \<open>
  Steps 1 to 5 of \<^verbatim>\<open>step\<close> for an accepted action, with the hands and the packs
  that \<^verbatim>\<open>step\<close> has read: the pick of seat 0, the picks of the seats 1 to 7, the pass
  to the right, and the counters.
\<close>

definition apply_pick :: "world \<Rightarrow> nat list \<Rightarrow> pack list list \<Rightarrow> nat \<Rightarrow> nat \<Rightarrow> world" where
  "apply_pick w holder all_packs slot card_id =
     (case w of (g, e) \<Rightarrow>
        (let r = round_idx e;
             user_pack_index = holder ! 0;
             user_pack = all_packs ! r ! user_pack_index;
             packs1 = (all_packs ! r)[user_pack_index := user_pack[slot := None]]
         in case fold (seat_pick holder) [1..<num_players] (packs1, g) of
              (packs2, g2) \<Rightarrow>
                (g2, advance (e\<lparr>user_picks := user_picks e @ [card_id],
                                 all_packs_by_round := Some (all_packs[r := packs2]),
                                 pack_holder := Some (pass_right holder)\<rparr>))))"

definition returned4 :: "py_error + obs \<Rightarrow> rat \<Rightarrow> bool \<Rightarrow> step_result" where
  "returned4 observation reward done =
     (case observation of Inl err \<Rightarrow> Raised err | Inr ob \<Rightarrow> Ret4 ob reward done)"

definition returned5 :: "py_error + obs \<Rightarrow> rat \<Rightarrow> bool \<Rightarrow> bool \<Rightarrow> step_result" where
  "returned5 observation reward done truncated =
     (case observation of Inl err \<Rightarrow> Raised err | Inr ob \<Rightarrow> Ret5 ob reward done truncated)"

definition step :: "arbiter \<Rightarrow> world \<Rightarrow> int \<Rightarrow> world \<times> step_result" where
  "step arb w action =
     (case w of (g, e) \<Rightarrow>
        if done_drafting e then (w, returned4 (build_observation e) 0 True)
        else
          (case pack_holder e of
             None \<Rightarrow> (w, Raised (AttributeError ''pack_holder''))
           | Some holder \<Rightarrow>
               (case all_packs_by_round e of
                  None \<Rightarrow> (w, Raised (AttributeError ''all_packs_by_round''))
                | Some all_packs \<Rightarrow>
                    (let user_pack = all_packs ! round_idx e ! (holder ! 0)
                     in if action < 0 \<or> int cards_per_pack \<le> action
                        then (w, returned4 (build_observation e) (- 1) False)
                        else
                          (case user_pack ! nat action of
                             None \<Rightarrow> (w, returned4 (build_observation e) (- 1) False)
                           | Some card_id \<Rightarrow>
                               (let w' = apply_pick w holder all_packs (nat action) card_id
                                in if num_packs \<le> round_idx (snd w')
                                   then
                                     (case arb (build_deck (snd w') 60 33 27) of
                                        Inl err \<Rightarrow> (w', Raised err)
                                      | Inr results \<Rightarrow>
                                          if length results = 0
                                          then (w', Raised ZeroDivisionError)
                                          else (w', returned5 (build_observation (snd w'))
                                                      (win_rate results) True False))
                                   else (w', returned5 (build_observation (snd w')) 0
                                               False False)))))))"

text \<open>
  A caller's loop: the actions are submitted one after the other. \<open>run\<close> is the state
  after the last call, \<open>trace\<close> lists what the calls yielded, and \<open>accepted_count\<close>
  counts the calls whose action was accepted.
\<close>

fun run :: "arbiter \<Rightarrow> world \<Rightarrow> int list \<Rightarrow> world" where
  "run arb w [] = w"
| "run arb w (a # as) = run arb (fst (step arb w a)) as"

fun trace :: "arbiter \<Rightarrow> world \<Rightarrow> int list \<Rightarrow> step_result list" where
  "trace arb w [] = []"
| "trace arb w (a # as) = snd (step arb w a) # trace arb (fst (step arb w a)) as"

fun accepted_count :: "arbiter \<Rightarrow> world \<Rightarrow> int list \<Rightarrow> nat" where
  "accepted_count arb w [] = 0"
| "accepted_count arb w (a # as) =
     (if accepted (snd w) a then 1 else 0) + accepted_count arb (fst (step arb w a)) as"

section \<open>Notions used in the statements and proofs\<close>

text \<open>
  The invariant of the loop of \<^verbatim>\<open>_build_maps\<close>: the two name maps are inverse to each
  other and the identities handed out so far are \<open>0, \<dots>, idx - 1\<close>.
\<close>

definition maps_inv :: "catalog \<times> nat \<Rightarrow> bool" where
  "maps_inv st \<longleftrightarrow>
     (\<forall>n i. card_id_map (fst st) n = Some i \<longleftrightarrow> id_card_map (fst st) i = Some n) \<and>
     dom (id_card_map (fst st)) = {0..<snd st}"

text \<open>Catalog records for the examples: a record with all four fields.\<close>

definition mk_card :: "string \<Rightarrow> string list \<Rightarrow> string \<Rightarrow> bool \<Rightarrow> card" where
  "mk_card n ci r b =
     \<lparr>name = Some n, color_identity = Some ci, rarity = Some r, is_basic_land = Some b\<rparr>"

definition nameless_card :: card where
  "nameless_card =
     \<lparr>name = None, color_identity = Some [''G''], rarity = Some ''rare'', is_basic_land = None\<rparr>"

definition reprint_cards :: "card list" where
  "reprint_cards =
     [mk_card ''Island'' [''U''] ''common'' True,
      mk_card ''Island'' [''U''] ''common'' True,
      mk_card ''Plains'' [''W''] ''common'' True]"

definition pool_keys :: "string list" where
  "pool_keys = [''common'', ''uncommon'', ''rare'', ''mythic'', ''basic_land'']"

definition pool_of :: "card \<Rightarrow> string" where
  "pool_of c =
     (if (case is_basic_land c of Some b \<Rightarrow> b | None \<Rightarrow> False) then ''basic_land''
      else lower (case rarity c of Some r \<Rightarrow> r | None \<Rightarrow> []))"

definition zero_rng :: rng where
  "zero_rng = \<lparr>tape = (\<lambda>i. 0), pos = 0\<rparr>"

definition tiny_cards :: "card list" where
  "tiny_cards =
     [mk_card ''Bear'' [''G''] ''common'' False,
      mk_card ''Elf'' [''G''] ''Uncommon'' False,
      mk_card ''Relic'' [] ''special'' False]"

definition promo_cards :: "card list" where
  "promo_cards =
     [mk_card ''Opt'' [''U''] ''common'' False,
      mk_card ''Opt'' [''U''] ''common'' False,
      mk_card ''Relic'' [] ''special'' False]"

definition pools_of :: "card list \<Rightarrow> string \<rightharpoonup> nat list" where
  "pools_of cards = rarity_pools (fst (projr (build_maps cards)))"

definition env_of :: "card list \<Rightarrow> nat list \<Rightarrow> env" where
  "env_of cards history =
     (snd (fst (reset (\<lambda>sd. zero_rng) None (zero_rng, projr (DraftEnv_init cards)))))\<lparr>user_picks := history\<rparr>"

definition void_cards :: "card list" where
  "void_cards =
     [mk_card ''Plains'' [''W''] ''common'' True,
      mk_card ''Relic'' [] ''common'' False,
      mk_card ''Golem'' [] ''uncommon'' False]"

definition zrng :: "nat \<Rightarrow> rng" where
  "zrng n = \<lparr>tape = (\<lambda>i. 0), pos = n\<rparr>"

definition P0 :: pack where
  "P0 = map Some [0, 2, 3, 4, 5, 6, 7, 8, 9, 10, 11, 12, 13, 14, 15]"

definition cut_pack :: "nat \<Rightarrow> pack" where
  "cut_pack k = replicate k None @ drop k P0"

definition perm8 :: "nat list \<Rightarrow> bool" where
  "perm8 h \<longleftrightarrow> length h = 8 \<and> distinct h \<and> set h = {0..<8}"

definition demo_cards :: "card list" where
  "demo_cards =
     [mk_card ''Island'' [''U''] ''common'' True,
      mk_card ''Plains'' [''W''] ''common'' True,
      mk_card ''Savannah Lions'' [''W''] ''Common'' False,
      mk_card ''Bonesplitter'' [] ''common'' False,
      mk_card ''Darksteel Axe'' [] ''common'' False,
      mk_card ''Flayer Husk'' [] ''common'' False,
      mk_card ''Glass Golem'' [] ''common'' False,
      mk_card ''Iron Myr'' [] ''common'' False,
      mk_card ''Leaden Myr'' [] ''common'' False,
      mk_card ''Myr Sire'' [] ''common'' False,
      mk_card ''Ornithopter'' [] ''common'' False,
      mk_card ''Spellbook'' [] ''common'' False,
      mk_card ''Juggernaut'' [] ''uncommon'' False,
      mk_card ''Mind Stone'' [] ''uncommon'' False,
      mk_card ''Palladium Myr'' [] ''uncommon'' False,
      mk_card ''Steel Hellkite'' [] ''rare'' False,
      mk_card ''Chrome Steed'' [] ''common'' False,
      mk_card ''Snare Thopter'' [] ''uncommon'' False]"

definition demo_env0 :: env where
  "demo_env0 = projr (DraftEnv_init demo_cards)"

definition demo_start :: world where
  "demo_start = fst (reset (\<lambda>sd. zero_rng) (Some 0) (zero_rng, demo_env0))"

definition demo_arb :: arbiter where
  "demo_arb deck = Inr [(''DM_mdr.dck'', 1, 10), (''adventurer.dck'', 2, 20)]"

definition demo_actions :: "int list" where
  "demo_actions = map int [0..<15] @ map int [0..<15] @ map int [0..<15]"

definition demo_world :: "nat \<Rightarrow> nat \<Rightarrow> bool \<Rightarrow> nat list \<Rightarrow> nat list \<Rightarrow> nat \<Rightarrow> nat list \<Rightarrow> world" where
  "demo_world r k d h picks n ls =
     (zrng n,
      demo_env0\<lparr>user_picks := picks,
                basic_land_ids :=
                  fold (populate_one (card_color_identity demo_env0))
                       (pool (rarity_pools demo_env0) ''basic_land'') (basic_land_ids demo_env0),
                round_idx := r, pick_idx := k, done_drafting := d,
                all_packs_by_round := Some (map (\<lambda>j. replicate 8 (cut_pack j)) ls),
                pack_holder := Some h\<rparr>)"

definition mixed_rng :: rng where
  "mixed_rng = \<lparr>tape = (\<lambda>i. 7 * i + 3), pos = 0\<rparr>"

(*PROOFS*)
section \<open>The catalog index\<close>

lemma build_card_Inl:
  "build_card c st = Inl err \<longleftrightarrow> name c = None \<and> err = KeyError ''name''"
  by (cases st) (auto simp: build_card_def Let_def split: option.splits prod.splits)

lemma build_loop_Inl:
  "build_loop cs st = Inl err \<longleftrightarrow> (\<exists>c\<in>set cs. name c = None) \<and> err = KeyError ''name''"
proof (induction cs arbitrary: st)
  case Nil
  then show ?case by simp
next
  case (Cons c cs)
  show ?case
  proof (cases "build_card c st")
    case (Inl e)
    then show ?thesis using build_card_Inl[of c st e] by auto
  next
    case (Inr st')
    then have "name c \<noteq> None" using build_card_Inl[of c st] by (cases "name c") auto
    with Inr Cons.IH[of st'] show ?thesis by auto
  qed
qed

lemma build_card_maps:
  assumes "build_card c (m, idx) = Inr (m', idx')" and "name c = Some nm"
  shows "card_id_map m' =
           (case card_id_map m nm of None \<Rightarrow> (card_id_map m)(nm \<mapsto> idx) | Some i \<Rightarrow> card_id_map m)"
    and "id_card_map m' =
           (case card_id_map m nm of None \<Rightarrow> (id_card_map m)(idx \<mapsto> nm) | Some i \<Rightarrow> id_card_map m)"
    and "idx' = (case card_id_map m nm of None \<Rightarrow> idx + 1 | Some i \<Rightarrow> idx)"
  using assms by (auto simp: build_card_def Let_def split: option.splits prod.splits if_splits)

lemma build_card_inv:
  assumes "build_card c st = Inr st'" and "maps_inv st"
  shows "maps_inv st'"
    and "dom (card_id_map (fst st')) = dom (card_id_map (fst st)) \<union> {n. name c = Some n}"
proof -
  obtain m idx where st: "st = (m, idx)" by (cases st)
  obtain m' idx' where st': "st' = (m', idx')" by (cases st')
  from assms(1) have "name c \<noteq> None"
    using build_card_Inl[of c st] by (cases "name c") (auto simp: build_card_def split: prod.splits)
  then obtain nm where nm: "name c = Some nm" by auto
  note B = build_card_maps[OF assms(1)[unfolded st st'] nm]
  show "maps_inv st'"
  proof (cases "card_id_map m nm")
    case None
    have fresh: "id_card_map m idx = None"
      using assms(2) unfolding maps_inv_def st by (auto simp: domIff[symmetric] simp del: domIff)
    have nofwd: "\<And>n. card_id_map m n \<noteq> Some idx"
      using assms(2) fresh unfolding maps_inv_def st by auto
    have noback: "\<And>i. id_card_map m i \<noteq> Some nm"
      using assms(2) None unfolding maps_inv_def st by (metis fst_conv option.distinct(1))
    show ?thesis
      using assms(2) None B nofwd noback unfolding maps_inv_def st st'
      by (auto simp: atLeast0_lessThan_Suc)
  next
    case (Some i)
    then show ?thesis using assms(2) B unfolding maps_inv_def st st' by auto
  qed
  show "dom (card_id_map (fst st')) = dom (card_id_map (fst st)) \<union> {n. name c = Some n}"
    using B nm unfolding st st' by (cases "card_id_map m nm") auto
qed

lemma build_loop_inv:
  assumes "build_loop cs st = Inr st'" and "maps_inv st"
  shows "maps_inv st' \<and>
         dom (card_id_map (fst st')) =
           dom (card_id_map (fst st)) \<union> {n. \<exists>c\<in>set cs. name c = Some n}"
  using assms
proof (induction cs arbitrary: st)
  case Nil
  then show ?case by simp
next
  case (Cons c cs)
  then obtain st1 where s1: "build_card c st = Inr st1" and s2: "build_loop cs st1 = Inr st'"
    by (auto split: sum.splits)
  from build_card_inv[OF s1 Cons.prems(2)] Cons.IH[OF s2]
  show ?case by auto
qed

lemma maps_inv_empty: "maps_inv (empty_catalog, 0)"
  by (simp add: maps_inv_def empty_catalog_def)

lemma maps_inv_card:
  assumes "maps_inv (m, n)"
  shows "card (dom (card_id_map m)) = n"
proof -
  let ?f = "\<lambda>nm. the (card_id_map m nm)"
  from assms have I: "\<And>nm i. card_id_map m nm = Some i \<longleftrightarrow> id_card_map m i = Some nm"
    and D: "dom (id_card_map m) = {0..<n}"
    by (simp_all add: maps_inv_def)
  have inj: "inj_on ?f (dom (card_id_map m))"
  proof (rule inj_onI)
    fix a b assume "a \<in> dom (card_id_map m)" "b \<in> dom (card_id_map m)" "?f a = ?f b"
    then obtain i where "card_id_map m a = Some i" "card_id_map m b = Some i" by auto
    then have "id_card_map m i = Some a" "id_card_map m i = Some b" using I by blast+
    then show "a = b" by simp
  qed
  have img: "?f ` dom (card_id_map m) = dom (id_card_map m)"
  proof (rule set_eqI)
    fix i
    show "i \<in> ?f ` dom (card_id_map m) \<longleftrightarrow> i \<in> dom (id_card_map m)"
    proof
      assume "i \<in> ?f ` dom (card_id_map m)"
      then obtain a j where "card_id_map m a = Some j" "i = ?f a" by auto
      then have "card_id_map m a = Some i" by simp
      then show "i \<in> dom (id_card_map m)" using I by blast
    next
      assume "i \<in> dom (id_card_map m)"
      then obtain a where "id_card_map m i = Some a" by auto
      then have "card_id_map m a = Some i" using I by blast
      then have "a \<in> dom (card_id_map m)" "?f a = i" by auto
      then show "i \<in> ?f ` dom (card_id_map m)" by blast
    qed
  qed
  have "card (dom (card_id_map m)) = card (?f ` dom (card_id_map m))"
    using inj by (simp add: card_image)
  then show ?thesis using img D by simp
qed

lemma build_maps_cases:
  "(\<exists>c\<in>set cs. name c = None) \<and> build_maps cs = Inl (KeyError ''name'') \<or>
   (\<forall>c\<in>set cs. name c \<noteq> None) \<and> (\<exists>m n. build_maps cs = Inr (m, n))"
proof (cases "build_maps cs")
  case (Inl err)
  then show ?thesis using build_loop_Inl[of cs "(empty_catalog, 0)" err]
    by (simp add: build_maps_def)
next
  case (Inr r)
  then have "\<not> (\<exists>c\<in>set cs. name c = None)"
    using build_loop_Inl[of cs "(empty_catalog, 0)" "KeyError ''name''"]
    by (simp add: build_maps_def)
  with Inr show ?thesis by (cases r) auto
qed

text \<open>
  Claim C6, as the code has it. The claim has the build signal a dedicated catalog
  error. The code has no such error: for a record without a name \<^verbatim>\<open>_build_maps\<close> raises
  the built-in \<^verbatim>\<open>KeyError\<close> of \<^verbatim>\<open>card["name"]\<close>, and so does the constructor. The
  empty catalog is no error either: it builds, with no identity.
\<close>

theorem catalog_error_counterexample:
  "build_maps [nameless_card] = Inl (KeyError ''name'') \<and>
   DraftEnv_init [nameless_card] = Inl (KeyError ''name'') \<and>
   build_maps [] = Inr (empty_catalog, 0)"
  by (simp add: build_maps_def DraftEnv_init_def build_card_def nameless_card_def)

text \<open>
  Claim C6, amended. The records are JSON objects whose fields, where present, have the
  types the loader's contract gives them (a string name, a list of colour symbols, a
  string rarity, a Boolean flag): the type \<open>card\<close>. A record sequence that contains a
  record without a name makes the catalog build fail: \<^verbatim>\<open>_build_maps\<close> raises the
  \<^verbatim>\<open>KeyError\<close> of \<^verbatim>\<open>card["name"]\<close>, nothing catches it, and the constructor fails with
  the same error; no dictionaries are returned. When every record has a name the build
  returns its dictionaries and the constructor returns an environment: there is no other
  failure.
\<close>

theorem catalog_build_fails_iff_name_missing:
  "((\<exists>c\<in>set cards_data. name c = None) \<longrightarrow>
      build_maps cards_data = Inl (KeyError ''name'') \<and>
      DraftEnv_init cards_data = Inl (KeyError ''name'')) \<and>
   ((\<forall>c\<in>set cards_data. name c \<noteq> None) \<longrightarrow>
      (\<exists>m n. build_maps cards_data = Inr (m, n)) \<and>
      (\<exists>e. DraftEnv_init cards_data = Inr e))"
  using build_maps_cases[of cards_data]
  by (auto simp: DraftEnv_init_def)

theorem catalog_build_fails_iff_name_missing_witness:
  "build_maps (reprint_cards @ [nameless_card]) = Inl (KeyError ''name'') \<and>
   DraftEnv_init (reprint_cards @ [nameless_card]) = Inl (KeyError ''name'') \<and>
   (\<exists>m n. build_maps reprint_cards = Inr (m, n)) \<and>
   (\<exists>e. DraftEnv_init reprint_cards = Inr e)"
  using catalog_build_fails_iff_name_missing[of "reprint_cards @ [nameless_card]"]
        catalog_build_fails_iff_name_missing[of reprint_cards]
  by (simp add: reprint_cards_def nameless_card_def mk_card_def)

text \<open>
  Claim C7. When the build succeeds, the two name maps are inverse to each other on the
  catalog's names: every name of a record has an identity, and \<open>id_card_map\<close> maps that
  identity back to the name; conversely every identity's name maps to it. The identities
  are \<open>0, \<dots>, n - 1\<close> where \<open>n\<close> is the number of different names: a record that
  repeats a name creates no identity.
\<close>

theorem catalog_maps_inverse:
  assumes "build_maps cards_data = Inr (m, n)"
  shows "(\<forall>c\<in>set cards_data. \<forall>nm. name c = Some nm \<longrightarrow>
            (\<exists>i. card_id_map m nm = Some i \<and> id_card_map m i = Some nm)) \<and>
         (\<forall>i nm. id_card_map m i = Some nm \<longrightarrow> card_id_map m nm = Some i) \<and>
         dom (id_card_map m) = {0..<n} \<and>
         n = card {nm. \<exists>c\<in>set cards_data. name c = Some nm}"
proof -
  from assms have L: "build_loop cards_data (empty_catalog, 0) = Inr (m, n)"
    by (simp add: build_maps_def)
  from build_loop_inv[OF L maps_inv_empty]
  have I: "maps_inv (m, n)"
    and D: "dom (card_id_map m) = {nm. \<exists>c\<in>set cards_data. name c = Some nm}"
    by (simp_all add: empty_catalog_def)
  from I have E: "\<And>nm i. card_id_map m nm = Some i \<longleftrightarrow> id_card_map m i = Some nm"
    and R: "dom (id_card_map m) = {0..<n}"
    by (simp_all add: maps_inv_def)
  have "\<exists>i. card_id_map m nm = Some i \<and> id_card_map m i = Some nm"
    if "c \<in> set cards_data" "name c = Some nm" for c nm
  proof -
    from that have "nm \<in> dom (card_id_map m)" unfolding D by blast
    then obtain i where "card_id_map m nm = Some i" by auto
    then show ?thesis using E by blast
  qed
  moreover have "n = card {nm. \<exists>c\<in>set cards_data. name c = Some nm}"
    using maps_inv_card[OF I] D by simp
  ultimately show ?thesis using E R by blast
qed

theorem catalog_maps_inverse_witness:
  "\<exists>m n. build_maps reprint_cards = Inr (m, n) \<and> n = 2 \<and>
     (\<exists>i. card_id_map m ''Island'' = Some i \<and> id_card_map m i = Some ''Island'') \<and>
     (\<exists>i. card_id_map m ''Plains'' = Some i \<and> id_card_map m i = Some ''Plains'')"
proof -
  have "\<forall>c\<in>set reprint_cards. name c \<noteq> None"
    by (simp add: reprint_cards_def mk_card_def)
  with build_maps_cases[of reprint_cards]
  obtain m n where B: "build_maps reprint_cards = Inr (m, n)" by auto
  have S: "{nm. \<exists>c\<in>set reprint_cards. name c = Some nm} = {''Island'', ''Plains''}"
    by (auto simp: reprint_cards_def mk_card_def)
  have "n = 2" using catalog_maps_inverse[OF B] unfolding S by simp
  moreover have "\<exists>i. card_id_map m ''Island'' = Some i \<and> id_card_map m i = Some ''Island''"
    using catalog_maps_inverse[OF B] by (simp add: reprint_cards_def mk_card_def)
  moreover have "\<exists>i. card_id_map m ''Plains'' = Some i \<and> id_card_map m i = Some ''Plains''"
    using catalog_maps_inverse[OF B] by (simp add: reprint_cards_def mk_card_def)
  ultimately show ?thesis using B by blast
qed

lemma randbelow_less: "0 < n \<Longrightarrow> fst (randbelow g n) < n"
  by (simp add: randbelow_def)

lemma sample_draw_inv:
  assumes "rest \<noteq> []"
  shows "case sample_draw i (rest, result, g) of (rest', result', g') \<Rightarrow>
           length result' = Suc (length result) \<and> length rest' = length rest - 1 \<and>
           set result' \<union> set rest' = set result \<union> set rest \<and>
           (distinct (result @ rest) \<longrightarrow> distinct (result' @ rest'))"
proof -
  obtain j g1 where R: "randbelow g (length rest) = (j, g1)" by (cases "randbelow g (length rest)")
  have j: "j < length rest" using randbelow_less[of "length rest" g] assms R by simp
  have split: "rest = take j rest @ rest ! j # drop (Suc j) rest"
    using j by (rule id_take_nth_drop)
  have S: "set rest = set (take j rest) \<union> {rest ! j} \<union> set (drop (Suc j) rest)"
    by (subst split) (simp only: set_append set_simps, blast)
  have D: "distinct (result @ rest) \<Longrightarrow>
           distinct ((result @ [rest ! j]) @ take j rest @ drop (Suc j) rest)"
  proof -
    assume "distinct (result @ rest)"
    then have "distinct (result @ take j rest @ rest ! j # drop (Suc j) rest)"
      using split by simp
    then show ?thesis by auto
  qed
  have L: "length (take j rest @ drop (Suc j) rest) = length rest - 1"
    using j by simp
  show ?thesis
    unfolding sample_draw_def using R S D L by auto
qed

lemma sample_fold_inv:
  assumes "k \<le> length xs"
  shows "case fold sample_draw [0..<k] (xs, [], g) of (rest, result, g') \<Rightarrow>
           length result = k \<and> length rest = length xs - k \<and>
           set result \<union> set rest = set xs \<and>
           (distinct xs \<longrightarrow> distinct (result @ rest))"
  using assms
proof (induction k)
  case 0
  then show ?case by simp
next
  case (Suc k)
  obtain rest result g' where F: "fold sample_draw [0..<k] (xs, [], g) = (rest, result, g')"
    by (cases "fold sample_draw [0..<k] (xs, [], g)") auto
  from Suc F have I: "length result = k" "length rest = length xs - k"
    "set result \<union> set rest = set xs" "distinct xs \<longrightarrow> distinct (result @ rest)"
    by auto
  from I(2) Suc.prems have ne: "rest \<noteq> []" by auto
  from sample_draw_inv[OF ne, where i=k and result=result and g=g'] I Suc.prems
  show ?case by (auto simp: F split: prod.splits)
qed

lemma sample_props:
  assumes "k \<le> length xs"
  shows "length (fst (sample g xs k)) = k"
    and "set (fst (sample g xs k)) \<subseteq> set xs"
    and "distinct xs \<Longrightarrow> distinct (fst (sample g xs k))"
  using sample_fold_inv[OF assms, of g]
  by (auto simp: sample_def split: prod.splits)

lemma draw_basic_land_shape:
  "\<exists>b. fst (draw_basic_land pools (ids, g)) = ids @ b \<and>
       length b = (if pool pools ''basic_land'' = [] then 0 else 1)"
  by (auto simp: draw_basic_land_def split: prod.splits)

lemma draw_rare_shape:
  "\<exists>r. fst (draw_rare pools (ids, g)) = ids @ r \<and>
       length r = (if pool pools ''rare'' @ pool pools ''mythic'' = [] then 0 else 1)"
  by (auto simp: draw_rare_def Let_def split: prod.splits)

lemma draw_commons_shape:
  "\<exists>c. fst (draw_commons pools (ids, g)) = ids @ map Some c \<and>
       length c = min 10 (length (pool pools ''common'')) \<and>
       set c \<subseteq> set (pool pools ''common'') \<and>
       (distinct (pool pools ''common'') \<longrightarrow> distinct c) \<and>
       (length (pool pools ''common'') < 10 \<longrightarrow> c = pool pools ''common'')"
proof (cases "10 \<le> length (pool pools ''common'')")
  case True
  obtain xs g1 where S: "sample g (pool pools ''common'') 10 = (xs, g1)"
    by (cases "sample g (pool pools ''common'') 10")
  from sample_props[OF True, of g] S
  have "length xs = 10" "set xs \<subseteq> set (pool pools ''common'')"
    "distinct (pool pools ''common'') \<longrightarrow> distinct xs" by auto
  with True S show ?thesis
    by (intro exI[of _ xs]) (simp add: draw_commons_def)
next
  case False
  then show ?thesis
    by (intro exI[of _ "pool pools ''common''"]) (simp add: draw_commons_def)
qed

lemma draw_uncommons_shape:
  "\<exists>u. fst (draw_uncommons pools (ids, g)) = ids @ map Some u \<and>
       length u = min 3 (length (pool pools ''uncommon'')) \<and>
       set u \<subseteq> set (pool pools ''uncommon'') \<and>
       (distinct (pool pools ''uncommon'') \<longrightarrow> distinct u) \<and>
       (length (pool pools ''uncommon'') < 3 \<longrightarrow> u = pool pools ''uncommon'')"
proof (cases "3 \<le> length (pool pools ''uncommon'')")
  case True
  obtain xs g1 where S: "sample g (pool pools ''uncommon'') 3 = (xs, g1)"
    by (cases "sample g (pool pools ''uncommon'') 3")
  from sample_props[OF True, of g] S
  have "length xs = 3" "set xs \<subseteq> set (pool pools ''uncommon'')"
    "distinct (pool pools ''uncommon'') \<longrightarrow> distinct xs" by auto
  with True S show ?thesis
    by (intro exI[of _ xs]) (simp add: draw_uncommons_def)
next
  case False
  then show ?thesis
    by (intro exI[of _ "pool pools ''uncommon''"]) (simp add: draw_uncommons_def)
qed

lemma make_pack_shape:
  "\<exists>b c u r.
     fst (make_pack pools g) =
       b @ map Some c @ map Some u @ r @
       replicate (15 - (length b + length c + length u + length r)) None \<and>
     length b = (if pool pools ''basic_land'' = [] then 0 else 1) \<and>
     length c = min 10 (length (pool pools ''common'')) \<and>
     set c \<subseteq> set (pool pools ''common'') \<and>
     (distinct (pool pools ''common'') \<longrightarrow> distinct c) \<and>
     (length (pool pools ''common'') < 10 \<longrightarrow> c = pool pools ''common'') \<and>
     length u = min 3 (length (pool pools ''uncommon'')) \<and>
     set u \<subseteq> set (pool pools ''uncommon'') \<and>
     (distinct (pool pools ''uncommon'') \<longrightarrow> distinct u) \<and>
     (length (pool pools ''uncommon'') < 3 \<longrightarrow> u = pool pools ''uncommon'') \<and>
     length r = (if pool pools ''rare'' @ pool pools ''mythic'' = [] then 0 else 1)"
proof -
  obtain i1 g1 where s1: "draw_basic_land pools ([], g) = (i1, g1)"
    by (cases "draw_basic_land pools ([], g)")
  obtain i2 g2 where s2: "draw_commons pools (i1, g1) = (i2, g2)"
    by (cases "draw_commons pools (i1, g1)")
  obtain i3 g3 where s3: "draw_uncommons pools (i2, g2) = (i3, g3)"
    by (cases "draw_uncommons pools (i2, g2)")
  obtain i4 g4 where s4: "draw_rare pools (i3, g3) = (i4, g4)"
    by (cases "draw_rare pools (i3, g3)")
  from draw_basic_land_shape[of pools "[]" g] s1 obtain b where
    b: "i1 = b" "length b = (if pool pools ''basic_land'' = [] then 0 else 1)" by auto
  from draw_commons_shape[of pools i1 g1] s2 obtain c where
    c: "i2 = i1 @ map Some c" "length c = min 10 (length (pool pools ''common''))"
       "set c \<subseteq> set (pool pools ''common'')"
       "distinct (pool pools ''common'') \<longrightarrow> distinct c"
       "length (pool pools ''common'') < 10 \<longrightarrow> c = pool pools ''common''" by auto
  from draw_uncommons_shape[of pools i2 g2] s3 obtain u where
    u: "i3 = i2 @ map Some u" "length u = min 3 (length (pool pools ''uncommon''))"
       "set u \<subseteq> set (pool pools ''uncommon'')"
       "distinct (pool pools ''uncommon'') \<longrightarrow> distinct u"
       "length (pool pools ''uncommon'') < 3 \<longrightarrow> u = pool pools ''uncommon''" by auto
  from draw_rare_shape[of pools i3 g3] s4 obtain r where
    r: "i4 = i3 @ r"
       "length r = (if pool pools ''rare'' @ pool pools ''mythic'' = [] then 0 else 1)" by auto
  have "length b \<le> 1" "length r \<le> 1" "length c \<le> 10" "length u \<le> 3"
    using b(2) r(2) c(2) u(2) by (simp_all split: if_splits)
  then have len: "length b + length c + length u + length r \<le> 15"
    by simp
  have i4: "i4 = b @ map Some c @ map Some u @ r"
    using b(1) c(1) u(1) r(1) by simp
  have E: "fst (make_pack pools g) =
          b @ map Some c @ map Some u @ r @
          replicate (15 - (length b + length c + length u + length r)) None"
    using len by (simp add: make_pack_def s1 s2 s3 s4 i4 Let_def cards_per_pack_def)
  show ?thesis
    apply (rule exI[of _ b], rule exI[of _ c], rule exI[of _ u], rule exI[of _ r])
    using E b(2) c(2-) u(2-) r(2) apply (intro conjI)
              apply assumption+
    done
qed

lemma make_pack_length: "length (fst (make_pack pools g)) = 15"
proof -
  from make_pack_shape[of pools g] obtain b c u r where
    E: "fst (make_pack pools g) =
       b @ map Some c @ map Some u @ r @
       replicate (15 - (length b + length c + length u + length r)) None"
    and L: "length b = (if pool pools ''basic_land'' = [] then 0 else 1)"
       "length c = min 10 (length (pool pools ''common''))"
       "length u = min 3 (length (pool pools ''uncommon''))"
       "length r = (if pool pools ''rare'' @ pool pools ''mythic'' = [] then 0 else 1)"
    by blast
  have "length b \<le> 1" "length r \<le> 1" "length c \<le> 10" "length u \<le> 3"
    using L by (simp_all split: if_splits)
  then have "length b + length c + length u + length r \<le> 15"
    by simp
  then show ?thesis by (simp add: E)
qed

lemma build_card_fresh_eq:
  assumes "name c = Some nm" and "card_id_map m nm = None"
  shows "build_card c (m, idx) =
           Inr (m\<lparr>card_id_map := (card_id_map m)(nm \<mapsto> idx),
                  id_card_map := (id_card_map m)(idx \<mapsto> nm),
                  card_color_identity := (card_color_identity m)
                     (idx \<mapsto> (case color_identity c of Some ci \<Rightarrow> ci | None \<Rightarrow> [])),
                  rarity_pools :=
                    (case rarity_pools m (pool_of c) of
                       Some xs \<Rightarrow> (rarity_pools m)(pool_of c \<mapsto> pool (rarity_pools m) (pool_of c) @ [idx])
                     | None \<Rightarrow>
                        if (case is_basic_land c of Some b \<Rightarrow> b | None \<Rightarrow> False)
                        then (rarity_pools m)(''basic_land'' \<mapsto> [idx])
                        else rarity_pools m)\<rparr>, idx + 1)"
  using assms
  by (simp add: build_card_def Let_def pool_of_def pool_def split: option.splits)

lemma build_card_fresh:
  assumes B: "build_card c (m, idx) = Inr (m', idx')"
    and nm: "name c = Some nm" and fresh: "card_id_map m nm = None"
    and dom: "dom (rarity_pools m) = set pool_keys"
  shows "idx' = idx + 1"
    and "dom (rarity_pools m') = set pool_keys"
    and "pool (rarity_pools m') k =
           pool (rarity_pools m) k @ (if pool_of c = k \<and> k \<in> set pool_keys then [idx] else [])"
    and "card_id_map m' = (card_id_map m)(nm \<mapsto> idx)"
proof -
  note E = B[unfolded build_card_fresh_eq[OF nm fresh, of idx]]
  have bl: "''basic_land'' \<in> set pool_keys" by (simp add: pool_keys_def)
  have basic: "rarity_pools m (pool_of c) \<noteq> None"
    if "case is_basic_land c of Some b \<Rightarrow> b | None \<Rightarrow> False"
  proof -
    from that have "pool_of c = ''basic_land''" by (simp add: pool_of_def)
    then have "pool_of c \<in> dom (rarity_pools m)" using dom bl by simp
    then show ?thesis by (simp add: domIff)
  qed
  have P: "rarity_pools m' =
      (case rarity_pools m (pool_of c) of
         Some xs \<Rightarrow> (rarity_pools m)(pool_of c \<mapsto> pool (rarity_pools m) (pool_of c) @ [idx])
       | None \<Rightarrow> rarity_pools m)"
    using E basic by (auto split: option.splits)
  show "idx' = idx + 1" "card_id_map m' = (card_id_map m)(nm \<mapsto> idx)"
    using E by auto
  have in_keys: "pool_of c \<in> set pool_keys \<longleftrightarrow> rarity_pools m (pool_of c) \<noteq> None"
    using dom by (metis domIff)
  show "dom (rarity_pools m') = set pool_keys"
    using P dom in_keys by (auto split: option.splits)
  show "pool (rarity_pools m') k =
           pool (rarity_pools m) k @ (if pool_of c = k \<and> k \<in> set pool_keys then [idx] else [])"
    using P in_keys by (auto simp: pool_def split: option.splits)
qed

lemma build_loop_keeps:
  assumes "build_loop cs st = Inr st'" and "card_id_map (fst st) nm = Some i"
  shows "card_id_map (fst st') nm = Some i"
  using assms
proof (induction cs arbitrary: st)
  case Nil
  then show ?case by simp
next
  case (Cons c cs)
  then obtain st1 where s1: "build_card c st = Inr st1" and s2: "build_loop cs st1 = Inr st'"
    by (auto split: sum.splits)
  obtain m idx where st: "st = (m, idx)" by (cases st)
  obtain m1 idx1 where st1: "st1 = (m1, idx1)" by (cases st1)
  from s1 have "name c \<noteq> None"
    using build_card_Inl[of c st] by (cases "name c") auto
  then obtain n' where n': "name c = Some n'" by auto
  have "card_id_map m1 nm = Some i"
    using build_card_maps(1)[OF s1[unfolded st st1] n'] Cons.prems(2) st
    by (cases "card_id_map m n'") (auto split: if_splits)
  then show ?case using Cons.IH[OF s2] st1 by simp
qed

lemma filter_upt_Suc:
  "filter P [0..<Suc n] = (if P 0 then [0] else []) @ map Suc (filter (\<lambda>j. P (Suc j)) [0..<n])"
proof -
  have "[0..<Suc n] = 0 # map Suc [0..<n]"
    by (simp add: upt_conv_Cons map_Suc_upt del: upt_Suc)
  then show ?thesis by (simp add: filter_map comp_def del: upt_Suc)
qed

lemma build_loop_fresh:
  assumes "build_loop cs (m, idx) = Inr (m', idx')"
    and "distinct (map name cs)"
    and "\<forall>c\<in>set cs. \<forall>nm. name c = Some nm \<longrightarrow> card_id_map m nm = None"
    and "dom (rarity_pools m) = set pool_keys"
  shows "idx' = idx + length cs \<and>
         (\<forall>k. pool (rarity_pools m') k =
               pool (rarity_pools m) k @
               map (\<lambda>j. idx + j)
                   (filter (\<lambda>j. pool_of (cs ! j) = k \<and> k \<in> set pool_keys) [0..<length cs])) \<and>
         (\<forall>j<length cs. card_id_map m' (the (name (cs ! j))) = Some (idx + j))"
  using assms
proof (induction cs arbitrary: m idx)
  case Nil
  then show ?case by simp
next
  case (Cons c cs)
  from Cons.prems(1) obtain m1 idx1 where
    s1: "build_card c (m, idx) = Inr (m1, idx1)" and s2: "build_loop cs (m1, idx1) = Inr (m', idx')"
    by (auto split: sum.splits)
  from s1 have "name c \<noteq> None"
    using build_card_Inl[of c "(m, idx)"] by (cases "name c") auto
  then obtain nm where nm: "name c = Some nm" by auto
  have fresh: "card_id_map m nm = None" using Cons.prems(3) nm by auto
  note F = build_card_fresh[OF s1 nm fresh Cons.prems(4)]
  have d: "distinct (map name cs)" and notin: "Some nm \<notin> name ` set cs"
    using Cons.prems(2) nm by auto
  have fresh1: "\<forall>c'\<in>set cs. \<forall>nm'. name c' = Some nm' \<longrightarrow> card_id_map m1 nm' = None"
  proof (intro ballI allI impI)
    fix c' nm' assume c': "c' \<in> set cs" "name c' = Some nm'"
    then have "nm' \<noteq> nm" using notin by force
    moreover have "card_id_map m nm' = None" using Cons.prems(3) c' by auto
    ultimately show "card_id_map m1 nm' = None" using F(4) by simp
  qed
  note IH = Cons.IH[OF s2 d fresh1 F(2)]
  have i1: "idx' = idx + length (c # cs)" using IH F(1) by simp
  have pools: "pool (rarity_pools m') k =
               pool (rarity_pools m) k @
               map (\<lambda>j. idx + j)
                   (filter (\<lambda>j. pool_of ((c # cs) ! j) = k \<and> k \<in> set pool_keys) [0..<length (c # cs)])" for k
  proof -
    have "pool (rarity_pools m') k =
            pool (rarity_pools m1) k @
            map (\<lambda>j. idx1 + j) (filter (\<lambda>j. pool_of (cs ! j) = k \<and> k \<in> set pool_keys) [0..<length cs])"
      using IH by blast
    also have "\<dots> = pool (rarity_pools m) k @
            (if pool_of c = k \<and> k \<in> set pool_keys then [idx] else []) @
            map (\<lambda>j. idx + Suc j) (filter (\<lambda>j. pool_of (cs ! j) = k \<and> k \<in> set pool_keys) [0..<length cs])"
      using F(1) F(3)[of k] by simp
    also have "\<dots> = pool (rarity_pools m) k @
            map (\<lambda>j. idx + j)
                (filter (\<lambda>j. pool_of ((c # cs) ! j) = k \<and> k \<in> set pool_keys) [0..<Suc (length cs)])"
      by (subst filter_upt_Suc) (simp add: comp_def)
    finally show ?thesis by simp
  qed
  have ids: "card_id_map m' (the (name ((c # cs) ! j))) = Some (idx + j)" if "j < length (c # cs)" for j
  proof (cases j)
    case 0
    have "card_id_map m1 nm = Some idx" using F(4) by simp
    then have "card_id_map m' nm = Some idx" using build_loop_keeps[OF s2] by simp
    then show ?thesis using 0 nm by simp
  next
    case (Suc j')
    then show ?thesis using IH that F(1) by simp
  qed
  from i1 pools ids show ?case by blast
qed

lemma tiny_pools: "map (pool (pools_of tiny_cards)) pool_keys = [[0], [1], [], [], []]"
  by code_simp

lemma promo_pools: "map (pool (pools_of promo_cards)) pool_keys = [[0, 0], [], [], [], []]"
  by code_simp

lemma promo_ids:
  "card_id_map (fst (projr (build_maps promo_cards))) ''Opt'' = Some 0"
  "card_id_map (fst (projr (build_maps promo_cards))) ''Relic'' = Some 1"
  by code_simp+

lemma promo_pack:
  "fst (make_pack (pools_of promo_cards) zero_rng) = [Some 0, Some 0] @ replicate 13 None"
  by code_simp

lemma lower_ex: "lower ''Uncommon'' = ''uncommon''" "lower ''common'' = ''common''" "lower ''special'' = ''special''"
  by code_simp+

lemma pool_of_tiny:
  "map pool_of tiny_cards = [''common'', ''uncommon'', ''special'']"
  by code_simp

lemma count_list_filter_distinct:
  "distinct xs \<Longrightarrow> count_list (filter P xs) x = (if x \<in> set xs \<and> P x then 1 else 0)"
  by (induction xs) auto

lemma build_maps_pools:
  assumes "build_maps cards_data = Inr (m, n)" and "distinct (map name cards_data)"
  shows "n = length cards_data"
    and "pool (rarity_pools m) k =
           filter (\<lambda>j. pool_of (cards_data ! j) = k \<and> k \<in> set pool_keys) [0..<length cards_data]"
    and "j < length cards_data \<Longrightarrow> card_id_map m (the (name (cards_data ! j))) = Some j"
proof -
  from assms(1) have L: "build_loop cards_data (empty_catalog, 0) = Inr (m, n)"
    by (simp add: build_maps_def)
  have fresh: "\<forall>c\<in>set cards_data. \<forall>nm. name c = Some nm \<longrightarrow> card_id_map empty_catalog nm = None"
    by (simp add: empty_catalog_def)
  have d: "dom (rarity_pools empty_catalog) = set pool_keys"
    by (auto simp: empty_catalog_def pool_keys_def)
  have e: "pool (rarity_pools empty_catalog) k = []"
    by (simp add: empty_catalog_def pool_def)
  note R = build_loop_fresh[OF L assms(2) fresh d]
  show "n = length cards_data" using R by simp
  show "pool (rarity_pools m) k =
           filter (\<lambda>j. pool_of (cards_data ! j) = k \<and> k \<in> set pool_keys) [0..<length cards_data]"
    using R e by simp
  show "j < length cards_data \<Longrightarrow> card_id_map m (the (name (cards_data ! j))) = Some j"
    using R by simp
qed

text \<open>
  Claim C5. For every content of the rarity pools, and so for every catalog,
  \<^verbatim>\<open>make_pack\<close> returns exactly 15 slots: at most one basic land (none when that pool is
  empty), then every member of a common pool smaller than 10 (10 members otherwise), every
  member of an uncommon pool smaller than 3 (3 otherwise), at most one rare or mythic, and
  \<^verbatim>\<open>None\<close> in all remaining slots.
\<close>

theorem make_pack_fifteen_slots:
  "length (fst (make_pack pools g)) = 15 \<and>
   (\<exists>b c u r.
      fst (make_pack pools g) =
        b @ map Some c @ map Some u @ r @
        replicate (15 - (length b + length c + length u + length r)) None \<and>
      length b = (if pool pools ''basic_land'' = [] then 0 else 1) \<and>
      (length (pool pools ''common'') < 10 \<longrightarrow> c = pool pools ''common'') \<and>
      (10 \<le> length (pool pools ''common'') \<longrightarrow> length c = 10) \<and>
      (length (pool pools ''uncommon'') < 3 \<longrightarrow> u = pool pools ''uncommon'') \<and>
      (3 \<le> length (pool pools ''uncommon'') \<longrightarrow> length u = 3) \<and>
      length r = (if pool pools ''rare'' @ pool pools ''mythic'' = [] then 0 else 1))"
proof -
  from make_pack_shape[of pools g] obtain b c u r where
    E: "fst (make_pack pools g) =
       b @ map Some c @ map Some u @ r @
       replicate (15 - (length b + length c + length u + length r)) None"
    and L: "length b = (if pool pools ''basic_land'' = [] then 0 else 1)"
       "length c = min 10 (length (pool pools ''common''))"
       "length (pool pools ''common'') < 10 \<longrightarrow> c = pool pools ''common''"
       "length u = min 3 (length (pool pools ''uncommon''))"
       "length (pool pools ''uncommon'') < 3 \<longrightarrow> u = pool pools ''uncommon''"
       "length r = (if pool pools ''rare'' @ pool pools ''mythic'' = [] then 0 else 1)"
    by blast
  have "10 \<le> length (pool pools ''common'') \<longrightarrow> length c = 10"
    "3 \<le> length (pool pools ''uncommon'') \<longrightarrow> length u = 3"
    using L(2,4) by simp_all
  with E L have "\<exists>b c u r.
      fst (make_pack pools g) =
        b @ map Some c @ map Some u @ r @
        replicate (15 - (length b + length c + length u + length r)) None \<and>
      length b = (if pool pools ''basic_land'' = [] then 0 else 1) \<and>
      (length (pool pools ''common'') < 10 \<longrightarrow> c = pool pools ''common'') \<and>
      (10 \<le> length (pool pools ''common'') \<longrightarrow> length c = 10) \<and>
      (length (pool pools ''uncommon'') < 3 \<longrightarrow> u = pool pools ''uncommon'') \<and>
      (3 \<le> length (pool pools ''uncommon'') \<longrightarrow> length u = 3) \<and>
      length r = (if pool pools ''rare'' @ pool pools ''mythic'' = [] then 0 else 1)"
    by blast
  then show ?thesis using make_pack_length[of pools g] by simp
qed

theorem make_pack_fifteen_slots_witness:
  "pool (pools_of tiny_cards) ''basic_land'' = [] \<and>
   length (pool (pools_of tiny_cards) ''common'') < 10 \<and>
   length (pool (pools_of tiny_cards) ''uncommon'') < 3 \<and>
   length (fst (make_pack (pools_of tiny_cards) zero_rng)) = 15 \<and>
   fst (make_pack (pools_of tiny_cards) zero_rng) = [Some 0, Some 1] @ replicate 13 None"
proof -
  have P: "pool (pools_of tiny_cards) ''basic_land'' = []"
    "pool (pools_of tiny_cards) ''common'' = [0]"
    "pool (pools_of tiny_cards) ''uncommon'' = [1]"
    "pool (pools_of tiny_cards) ''rare'' = []"
    "pool (pools_of tiny_cards) ''mythic'' = []"
    using tiny_pools by (simp_all add: pool_keys_def)
  from make_pack_fifteen_slots[of "pools_of tiny_cards" zero_rng] P
  show ?thesis by auto
qed

text \<open>
  Claim C4, as the code has it. The claim fails for a catalog that lists a name twice:
  every record, not every name, appends its identity to a pool, so the identity of a
  repeated name stands twice in its pool (or in two pools), and a pack can hold it in two
  common slots. It also fails for a record whose rarity label is not a pool key: its
  identity is in no pool.
\<close>

theorem pack_slots_distinct_counterexample:
  "card_id_map (fst (projr (build_maps promo_cards))) ''Opt'' = Some 0 \<and>
   card_id_map (fst (projr (build_maps promo_cards))) ''Relic'' = Some 1 \<and>
   map (pool (pools_of promo_cards)) pool_keys = [[0, 0], [], [], [], []] \<and>
   fst (make_pack (pools_of promo_cards) zero_rng) = [Some 0, Some 0] @ replicate 13 None"
  using promo_ids promo_pools promo_pack by simp

lemma build_deck_no_colors:
  assumes "sum_list (map snd (count_colors (card_color_identity e)
                                (slice_to (user_picks e) main_count))) = 0"
  shows "build_deck e deck_size main_count land_count =
           map Some (slice_to (user_picks e) main_count) @
           replicate (nat land_count) (basic_land_ids e ''U'')"
  using assms by (simp add: build_deck_def Let_def times_def)

lemma populate_one_U:
  "populate_one cci land_id ids ''U'' =
     (if cci land_id = Some [''U''] then Some land_id else ids ''U'')"
  by (simp add: populate_one_def Let_def)

lemma fold_populate_U:
  "fold (populate_one cci) lands ids ''U'' =
     (case filter (\<lambda>i. cci i = Some [''U'']) lands of
        [] \<Rightarrow> ids ''U'' | xs \<Rightarrow> Some (last xs))"
proof (induction lands arbitrary: ids)
  case Nil
  then show ?case by simp
next
  case (Cons x lands)
  show ?case
    by (simp add: Cons.IH populate_one_U split: list.splits)
qed

lemma reset_fields:
  "card_color_identity (snd (fst (reset mt seed (g, e)))) = card_color_identity e"
  "rarity_pools (snd (fst (reset mt seed (g, e)))) = rarity_pools e"
  "num_cards_total (snd (fst (reset mt seed (g, e)))) = num_cards_total e"
  "basic_land_ids (snd (fst (reset mt seed (g, e)))) =
     fold (populate_one (card_color_identity e)) (pool (rarity_pools e) ''basic_land'')
          (basic_land_ids e)"
  "round_idx (snd (fst (reset mt seed (g, e)))) = 0"
  "pick_idx (snd (fst (reset mt seed (g, e)))) = 0"
  "done_drafting (snd (fst (reset mt seed (g, e)))) = False"
  "user_picks (snd (fst (reset mt seed (g, e)))) = []"
  "pack_holder (snd (fst (reset mt seed (g, e)))) = Some [0..<num_players]"
  "all_packs_by_round (snd (fst (reset mt seed (g, e)))) =
     Some (fst (make_rounds (rarity_pools e) num_packs (case seed of Some sd \<Rightarrow> mt sd | None \<Rightarrow> g)))"
  by (simp_all add: reset_def Let_def populate_basic_land_ids_def split: prod.splits)

lemma apply_pick_keeps:
  "basic_land_ids (snd (apply_pick w h ps slot cid)) = basic_land_ids (snd w)"
  "card_color_identity (snd (apply_pick w h ps slot cid)) = card_color_identity (snd w)"
  "rarity_pools (snd (apply_pick w h ps slot cid)) = rarity_pools (snd w)"
  "num_cards_total (snd (apply_pick w h ps slot cid)) = num_cards_total (snd w)"
  by (cases w; simp add: apply_pick_def advance_def Let_def split: prod.splits)+

lemma accepted_table:
  assumes "accepted e a"
  shows "\<exists>h ps. pack_holder e = Some h \<and> all_packs_by_round e = Some ps \<and>
           ps ! round_idx e ! (h ! 0) ! nat a \<noteq> None"
  using assms by (auto simp: accepted_def user_pack_of_def split: option.splits)

lemma fst_step_accepted:
  assumes "pack_holder (snd w) = Some h" and "all_packs_by_round (snd w) = Some ps"
    and "accepted (snd w) a"
  shows "fst (step arb w a) =
           apply_pick w h ps (nat a) (the (ps ! round_idx (snd w) ! (h ! 0) ! nat a))"
  using assms
  by (cases w)
     (auto simp: step_def accepted_def user_pack_of_def Let_def split: option.splits sum.splits)

lemma fst_step_rejected:
  assumes "\<not> accepted (snd w) a"
  shows "fst (step arb w a) = w"
  using assms
  by (cases w)
     (auto simp: step_def accepted_def user_pack_of_def Let_def split: option.splits sum.splits)

lemma step_keeps_all:
  "basic_land_ids (snd (fst (step arb w a))) = basic_land_ids (snd w) \<and>
   card_color_identity (snd (fst (step arb w a))) = card_color_identity (snd w) \<and>
   rarity_pools (snd (fst (step arb w a))) = rarity_pools (snd w) \<and>
   num_cards_total (snd (fst (step arb w a))) = num_cards_total (snd w)"
proof (cases "accepted (snd w) a")
  case True
  from accepted_table[OF True] obtain h ps where
    "pack_holder (snd w) = Some h" "all_packs_by_round (snd w) = Some ps" by blast
  from fst_step_accepted[OF this True, of arb] show ?thesis
    by (simp add: apply_pick_keeps)
next
  case False
  from fst_step_rejected[OF this, of arb] show ?thesis by simp
qed

lemma step_keeps:
  "basic_land_ids (snd (fst (step arb w a))) = basic_land_ids (snd w)"
  "card_color_identity (snd (fst (step arb w a))) = card_color_identity (snd w)"
  "rarity_pools (snd (fst (step arb w a))) = rarity_pools (snd w)"
  "num_cards_total (snd (fst (step arb w a))) = num_cards_total (snd w)"
  using step_keeps_all[of arb w a] by simp_all

lemma run_keeps:
  "basic_land_ids (snd (run arb w acts)) = basic_land_ids (snd w) \<and>
   card_color_identity (snd (run arb w acts)) = card_color_identity (snd w) \<and>
   rarity_pools (snd (run arb w acts)) = rarity_pools (snd w) \<and>
   num_cards_total (snd (run arb w acts)) = num_cards_total (snd w)"
  by (induction acts arbitrary: w) (simp_all add: step_keeps)

lemma DraftEnv_init_fields:
  assumes "DraftEnv_init cards_data = Inr e0"
  shows "basic_land_ids e0 = (\<lambda>c. None)"
  using assms by (auto simp: DraftEnv_init_def split: sum.splits prod.splits)

text \<open>
  Claim C9. When the colour tally of the main portion is zero, \<^verbatim>\<open>build_deck\<close> returns
  the main portion followed by \<^verbatim>\<open>land_count\<close> copies of \<^verbatim>\<open>basic_land_ids['U']\<close>: blue is
  the default. In every state of a draft on an environment built from a catalog, that
  entry is the last member of the basic-land pool whose colour identity is exactly
  \<^verbatim>\<open>["U"]\<close>, and \<^verbatim>\<open>None\<close> when the pool has no such member; in that case the land
  entries of the deck are \<^verbatim>\<open>None\<close>, and the deck holds \<^verbatim>\<open>None\<close> whenever
  \<^verbatim>\<open>land_count\<close> is positive.
\<close>

theorem default_land_color_is_blue:
  "(sum_list (map snd (count_colors (card_color_identity e)
                         (slice_to (user_picks e) main_count))) = 0 \<longrightarrow>
      build_deck e deck_size main_count land_count =
        map Some (slice_to (user_picks e) main_count) @
        replicate (nat land_count) (basic_land_ids e ''U'') \<and>
      (basic_land_ids e ''U'' = None \<longrightarrow> 0 < land_count \<longrightarrow>
         None \<in> set (build_deck e deck_size main_count land_count))) \<and>
   (DraftEnv_init cards_data = Inr e0 \<longrightarrow>
      basic_land_ids (snd (run arb (fst (reset mt seed (g, e0))) acts)) ''U'' =
        (case filter (\<lambda>i. card_color_identity e0 i = Some [''U''])
                     (pool (rarity_pools e0) ''basic_land'') of
           [] \<Rightarrow> None | xs \<Rightarrow> Some (last xs)))"
proof -
  have A: "build_deck e deck_size main_count land_count =
        map Some (slice_to (user_picks e) main_count) @
        replicate (nat land_count) (basic_land_ids e ''U'') \<and>
      (basic_land_ids e ''U'' = None \<longrightarrow> 0 < land_count \<longrightarrow>
         None \<in> set (build_deck e deck_size main_count land_count))"
    if "sum_list (map snd (count_colors (card_color_identity e)
                         (slice_to (user_picks e) main_count))) = 0"
    using build_deck_no_colors[OF that, of deck_size land_count] by auto
  have B: "basic_land_ids (snd (run arb (fst (reset mt seed (g, e0))) acts)) ''U'' =
        (case filter (\<lambda>i. card_color_identity e0 i = Some [''U''])
                     (pool (rarity_pools e0) ''basic_land'') of
           [] \<Rightarrow> None | xs \<Rightarrow> Some (last xs))"
    if "DraftEnv_init cards_data = Inr e0"
    using DraftEnv_init_fields[OF that]
    by (simp add: run_keeps reset_fields fold_populate_U)
  from A B show ?thesis by blast
qed

lemma void_env_tally:
  "sum_list (map snd (count_colors (card_color_identity (env_of void_cards [1, 2, 1]))
                        (slice_to (user_picks (env_of void_cards [1, 2, 1])) 33))) = 0"
  by code_simp

lemma void_env_blue: "basic_land_ids (env_of void_cards [1, 2, 1]) ''U'' = None"
  by code_simp

theorem default_land_color_is_blue_witness:
  "sum_list (map snd (count_colors (card_color_identity (env_of void_cards [1, 2, 1]))
                        (slice_to (user_picks (env_of void_cards [1, 2, 1])) 33))) = 0 \<and>
   basic_land_ids (env_of void_cards [1, 2, 1]) ''U'' = None \<and>
   build_deck (env_of void_cards [1, 2, 1]) 60 33 27 =
     [Some 1, Some 2, Some 1] @ replicate 27 None \<and>
   None \<in> set (build_deck (env_of void_cards [1, 2, 1]) 60 33 27) \<and>
   (\<exists>e0. DraftEnv_init void_cards = Inr e0 \<and>
      basic_land_ids (snd (run (\<lambda>deck. Inr []) (fst (reset (\<lambda>sd. zero_rng) None (zero_rng, e0))) [])) ''U'' = None)"
proof -
  have names: "\<forall>c\<in>set void_cards. name c \<noteq> None"
    by (simp add: void_cards_def mk_card_def)
  then obtain e0 where e0: "DraftEnv_init void_cards = Inr e0"
    using build_maps_cases[of void_cards] by (auto simp: DraftEnv_init_def)
  have picks: "slice_to (user_picks (env_of void_cards [1, 2, 1])) 33 = [1, 2, 1]"
    by (simp add: env_of_def slice_to_def)
  have noblue: "filter (\<lambda>i. card_color_identity e0 i = Some [''U''])
                     (pool (rarity_pools e0) ''basic_land'') = []"
  proof -
    have "e0 = projr (DraftEnv_init void_cards)" using e0 by simp
    moreover have "filter (\<lambda>i. card_color_identity (projr (DraftEnv_init void_cards)) i = Some [''U''])
                     (pool (rarity_pools (projr (DraftEnv_init void_cards))) ''basic_land'') = []"
      by code_simp
    ultimately show ?thesis by simp
  qed
  from default_land_color_is_blue[of "env_of void_cards [1, 2, 1]" 33 60 27 void_cards e0
         "\<lambda>deck. Inr []" "\<lambda>sd. zero_rng" None zero_rng "[]"]
       void_env_tally void_env_blue e0 picks noblue
  show ?thesis by auto
qed

lemma zero_rng_zrng: "zero_rng = zrng 0"
  by (simp add: zero_rng_def zrng_def)

lemma randbelow_zrng: "randbelow (zrng n) m = (0, zrng (Suc n))"
  by (simp add: randbelow_def zrng_def)

lemma choice_zrng: "choice (zrng n) xs = (xs ! 0, zrng (Suc n))"
  by (simp add: choice_def randbelow_zrng)

lemma sample_fold_zrng:
  "k \<le> length xs \<Longrightarrow>
   fold sample_draw [0..<k] (xs, [], zrng n) = (drop k xs, take k xs, zrng (n + k))"
proof (induction k)
  case 0
  then show ?case by simp
next
  case (Suc k)
  then have k: "k < length xs" by simp
  have "drop k xs ! 0 = xs ! k" using k by simp
  moreover have "take 0 (drop k xs) @ drop (Suc 0) (drop k xs) = drop (Suc k) xs"
    by simp
  ultimately show ?case
    using Suc k by (simp add: sample_draw_def randbelow_zrng take_Suc_conv_app_nth)
qed

lemma sample_zrng: "k \<le> length xs \<Longrightarrow> sample (zrng n) xs k = (take k xs, zrng (n + k))"
  by (simp add: sample_def sample_fold_zrng)

lemma P0_props: "length P0 = 15" "i < 15 \<Longrightarrow> P0 ! i \<noteq> None"
  by (simp_all add: P0_def nth_Cons' )

lemma cut_nth: "k \<le> 15 \<Longrightarrow> i < 15 \<Longrightarrow> cut_pack k ! i = (if i < k then None else P0 ! i)"
  by (simp add: cut_pack_def nth_append P0_props)

lemma cut_length: "k \<le> 15 \<Longrightarrow> length (cut_pack k) = 15"
  by (simp add: cut_pack_def P0_props)

lemma cut_0: "cut_pack 0 = P0"
  by (simp add: cut_pack_def)

lemma cut_update: "k < 15 \<Longrightarrow> (cut_pack k)[k := None] = cut_pack (Suc k)"
  by (rule nth_equalityI) (auto simp: cut_length cut_nth nth_list_update)

lemma filter_upt_ge: "k \<le> n \<Longrightarrow> filter (\<lambda>i. k \<le> i) [0..<n] = [k..<n]"
proof (induction n)
  case 0
  then show ?case by simp
next
  case (Suc n)
  then show ?case by (cases "k = Suc n") auto
qed

lemma valid_slots_cut: "k \<le> 15 \<Longrightarrow> valid_slots (cut_pack k) = [k..<15]"
proof -
  assume k: "k \<le> 15"
  have "filter (\<lambda>i. cut_pack k ! i \<noteq> None) [0..<15] = filter (\<lambda>i. k \<le> i) [0..<15]"
  proof (rule filter_cong)
    fix i assume "i \<in> set [0..<15]"
    then have i: "i < 15" by simp
    show "(cut_pack k ! i \<noteq> None) = (k \<le> i)"
      using cut_nth[OF k i] P0_props(2)[OF i] by auto
  qed simp
  then show ?thesis using k by (simp add: valid_slots_def cut_length filter_upt_ge)
qed

lemma seat_pick_cut:
  assumes "k < 15" and "packs ! (h ! s) = cut_pack k"
  shows "seat_pick h s (packs, zrng n) = (packs[h ! s := cut_pack (Suc k)], zrng (Suc n))"
  using assms by (simp add: seat_pick_def Let_def valid_slots_cut choice_zrng cut_update)

lemma fold_seat_pick_cut:
  assumes "k < 15" and "distinct (map ((!) h) seats)"
    and "\<forall>s\<in>set seats. packs ! (h ! s) = cut_pack k"
  shows "fold (seat_pick h) seats (packs, zrng n) =
           (fold (\<lambda>s ps. ps[h ! s := cut_pack (Suc k)]) seats packs, zrng (n + length seats))"
  using assms(2,3)
proof (induction seats arbitrary: packs n)
  case Nil
  then show ?case by simp
next
  case (Cons s seats)
  have 1: "seat_pick h s (packs, zrng n) = (packs[h ! s := cut_pack (Suc k)], zrng (Suc n))"
    using seat_pick_cut[OF assms(1)] Cons.prems(2) by simp
  have 2: "\<forall>s'\<in>set seats. packs[h ! s := cut_pack (Suc k)] ! (h ! s') = cut_pack k"
  proof
    fix s' assume s': "s' \<in> set seats"
    then have "h ! s \<noteq> h ! s'" using Cons.prems(1) by auto
    then show "packs[h ! s := cut_pack (Suc k)] ! (h ! s') = cut_pack k"
      using Cons.prems(2) s' by simp
  qed
  have 3: "distinct (map ((!) h) seats)" using Cons.prems(1) by simp
  show ?case using Cons.IH[OF 3 2, of "Suc n"] 1 by simp
qed

lemma fold_update_nth:
  "j < length xs \<Longrightarrow>
   fold (\<lambda>i ps. ps[i := y]) js xs ! j = (if j \<in> set js then y else xs ! j)"
  by (induction js arbitrary: xs) (auto simp: nth_list_update)

lemma fold_update_length: "length (fold (\<lambda>i ps. ps[i := y]) js xs) = length xs"
  by (induction js arbitrary: xs) auto

lemma fold_update_all:
  assumes "{0..<length xs} \<subseteq> set js"
  shows "fold (\<lambda>i ps. ps[i := y]) js xs = replicate (length xs) y"
  by (rule nth_equalityI) (use assms in \<open>auto simp: fold_update_length fold_update_nth\<close>)

lemma pass_right_8: "pass_right [a, b, c, d, e, f, g, i] = [i, a, b, c, d, e, f, g]"
  by code_simp

lemma length_8_conv:
  "length h = 8 \<Longrightarrow> \<exists>a b c d e f g i. h = [a, b, c, d, e, f, g, i]"
  by (auto simp: numeral_eq_Suc length_Suc_conv)

lemma pass_right_perm8: "perm8 h \<Longrightarrow> perm8 (pass_right h)"
proof -
  assume p: "perm8 h"
  then obtain a b c d e f g i where h: "h = [a, b, c, d, e, f, g, i]"
    using length_8_conv[of h] by (auto simp: perm8_def)
  show ?thesis using p unfolding h pass_right_8 perm8_def by auto
qed

lemma perm8_upt: "perm8 [0..<num_players]"
  by (simp add: perm8_def num_players_def)

lemma map_nth_tl: "map ((!) h) [1..<length h] = tl h"
proof (cases h)
  case Nil
  then show ?thesis by simp
next
  case (Cons x xs)
  have "[1..<Suc (length xs)] = map Suc [0..<length xs]"
    by (simp add: map_Suc_upt del: upt_Suc)
  then have "map ((!) (x # xs)) [1..<Suc (length xs)] = map ((!) xs) [0..<length xs]"
    by (simp add: comp_def del: upt_Suc)
  then show ?thesis using Cons by (simp add: map_nth del: upt_Suc)
qed

lemma round_pick_uniform:
  assumes k: "k < 15" and h: "perm8 h"
  shows "fold (seat_pick h) [1..<num_players]
              ((replicate 8 (cut_pack k))[h ! 0 := (cut_pack k)[k := None]], zrng n) =
           (replicate 8 (cut_pack (Suc k)), zrng (n + 7))"
proof -
  let ?packs1 = "(replicate 8 (cut_pack k))[h ! 0 := cut_pack (Suc k)]"
  from h have len: "length h = 8" and d: "distinct h" and s: "set h = {0..<8}"
    by (simp_all add: perm8_def)
  have seats: "map ((!) h) [1..<num_players] = tl h"
    using map_nth_tl[of h] len by (simp add: num_players_def)
  then have d1: "distinct (map ((!) h) [1..<num_players])"
    using d by (simp add: distinct_tl)
  have h0: "h = h ! 0 # tl h" using len by (cases h) auto
  have in8: "\<And>j. j \<in> set h \<Longrightarrow> j < 8" using s by auto
  have u: "\<forall>s\<in>set [1..<num_players]. ?packs1 ! (h ! s) = cut_pack k"
  proof
    fix s' assume "s' \<in> set [1..<num_players]"
    then have s': "1 \<le> s'" "s' < 8" by (simp_all add: num_players_def)
    then have "h ! s' \<noteq> h ! 0" using d len by (simp add: nth_eq_iff_index_eq)
    moreover have "h ! s' < 8" using in8 s' len by simp
    ultimately show "?packs1 ! (h ! s') = cut_pack k" by simp
  qed
  have "fold (seat_pick h) [1..<num_players] (?packs1, zrng n) =
          (fold (\<lambda>s ps. ps[h ! s := cut_pack (Suc k)]) [1..<num_players] ?packs1,
           zrng (n + length [1..<num_players]))"
    by (rule fold_seat_pick_cut[OF k d1 u])
  moreover have "fold (\<lambda>s ps. ps[h ! s := cut_pack (Suc k)]) [1..<num_players] ?packs1 =
          fold (\<lambda>i ps. ps[i := cut_pack (Suc k)]) (h ! 0 # tl h) (replicate 8 (cut_pack k))"
  proof -
    have "fold (\<lambda>i ps. ps[i := cut_pack (Suc k)]) (map ((!) h) [1..<num_players]) ?packs1 =
          fold (\<lambda>s ps. ps[h ! s := cut_pack (Suc k)]) [1..<num_players] ?packs1"
      by (simp add: fold_map comp_def)
    then show ?thesis unfolding seats by simp
  qed
  moreover have "fold (\<lambda>i ps. ps[i := cut_pack (Suc k)]) h (replicate 8 (cut_pack k)) =
          replicate 8 (cut_pack (Suc k))"
    using fold_update_all[of "replicate 8 (cut_pack k)" h "cut_pack (Suc k)"] s by simp
  ultimately show ?thesis
    using h0 k by (simp add: cut_update num_players_def)
qed

lemma apply_pick_uniform:
  assumes k: "k < 15" and h: "perm8 h"
    and r: "round_idx e < length ps"
    and u: "ps ! round_idx e = replicate 8 (cut_pack k)"
  shows "apply_pick (zrng n, e) h ps k cid =
           (zrng (n + 7),
            advance (e\<lparr>user_picks := user_picks e @ [cid],
                        all_packs_by_round :=
                          Some (ps[round_idx e := replicate 8 (cut_pack (Suc k))]),
                        pack_holder := Some (pass_right h)\<rparr>))"
proof -
  from h have "h ! 0 \<in> set h" by (auto simp: perm8_def)
  then have h0: "h ! 0 < 8" using h by (auto simp: perm8_def)
  show ?thesis
    using round_pick_uniform[OF k h, of n] h0
    by (simp add: apply_pick_def Let_def u)
qed

lemma accepted_uniform:
  assumes k: "k < 15" and h: "perm8 h"
    and ph: "pack_holder e = Some h" and ap: "all_packs_by_round e = Some ps"
    and u: "ps ! round_idx e = replicate 8 (cut_pack k)"
    and d: "\<not> done_drafting e"
  shows "accepted e (int k)" and "ps ! round_idx e ! (h ! 0) ! k = P0 ! k"
proof -
  from h have "h ! 0 \<in> set h" by (auto simp: perm8_def)
  then have h0: "h ! 0 < 8" using h by (auto simp: perm8_def)
  then have up: "user_pack_of e = Inr (cut_pack k)" by (simp add: user_pack_of_def u ph ap)
  show "ps ! round_idx e ! (h ! 0) ! k = P0 ! k" using h0 k by (simp add: u cut_nth)
  show "accepted e (int k)"
    using k d P0_props(2)[of k] by (simp add: accepted_def cards_per_pack_def up cut_nth)
qed

lemma demo_pools:
  "map (pool (rarity_pools demo_env0)) pool_keys =
     [[2, 3, 4, 5, 6, 7, 8, 9, 10, 11, 16], [12, 13, 14, 17], [15], [], [0, 1]]"
  by code_simp

lemma demo_make_pack: "make_pack (rarity_pools demo_env0) (zrng n) = (P0, zrng (n + 15))"
proof -
  have P: "pool (rarity_pools demo_env0) ''common'' = [2, 3, 4, 5, 6, 7, 8, 9, 10, 11, 16]"
    "pool (rarity_pools demo_env0) ''uncommon'' = [12, 13, 14, 17]"
    "pool (rarity_pools demo_env0) ''rare'' = [15]"
    "pool (rarity_pools demo_env0) ''mythic'' = []"
    "pool (rarity_pools demo_env0) ''basic_land'' = [0, 1]"
    using demo_pools by (simp_all add: pool_keys_def)
  show ?thesis
    by (simp add: make_pack_def draw_basic_land_def draw_commons_def draw_uncommons_def
        draw_rare_def P choice_zrng sample_zrng Let_def cards_per_pack_def P0_def add.commute)
qed

lemma make_packs_zrng:
  assumes "\<And>n. make_pack pools (zrng n) = (P, zrng (n + c))"
  shows "make_packs pools k (zrng n) = (replicate k P, zrng (n + c * k))"
  unfolding make_packs_def
  by (induction k) (simp_all add: assms replicate_append_same ac_simps)

lemma make_rounds_zrng:
  assumes "\<And>n. make_packs pools num_players (zrng n) = (R, zrng (n + c))"
  shows "make_rounds pools k (zrng n) = (replicate k R, zrng (n + c * k))"
  unfolding make_rounds_def
  by (induction k) (simp_all add: assms replicate_append_same ac_simps)

lemma demo_start_eq: "demo_start = demo_world 0 0 False [0..<num_players] [] 360 [0, 0, 0]"
proof -
  have 1: "make_packs (rarity_pools demo_env0) num_players (zrng n) =
             (replicate 8 P0, zrng (n + 120))" for n
    using make_packs_zrng[of "rarity_pools demo_env0" P0 15 8 n] demo_make_pack
    by (simp add: num_players_def)
  have 2: "make_rounds (rarity_pools demo_env0) num_packs (zrng 0) =
             (replicate 3 (replicate 8 P0), zrng 360)"
    using make_rounds_zrng[of "rarity_pools demo_env0" "replicate 8 P0" 120 3 0] 1
    by (simp add: num_packs_def)
  have 3: "replicate 3 (replicate 8 P0) = map (\<lambda>j. replicate 8 (cut_pack j)) [0, 0, 0]"
    by (simp add: cut_0 numeral_3_eq_3)
  show ?thesis
    unfolding demo_start_def demo_world_def reset_def
    by (simp add: zero_rng_zrng 2 3 populate_basic_land_ids_def Let_def)
qed

lemma demo_step:
  assumes r: "r < 3" and k: "k < 15" and h: "perm8 h" and l: "length ls = 3" and lr: "ls ! r = k"
  shows "accepted (snd (demo_world r k False h picks n ls)) (int k)"
    and "fst (step arb (demo_world r k False h picks n ls) (int k)) =
           (if k < 14
            then demo_world r (Suc k) False (pass_right h) (picks @ [the (P0 ! k)]) (n + 7)
                   (ls[r := Suc k])
            else if r < 2
            then demo_world (Suc r) 0 False [0..<num_players] (picks @ [the (P0 ! k)]) (n + 7)
                   (ls[r := 15])
            else demo_world 3 0 True (pass_right h) (picks @ [the (P0 ! k)]) (n + 7)
                   (ls[r := 15]))"
proof -
  let ?e = "snd (demo_world r k False h picks n ls)"
  let ?ps = "map (\<lambda>j. replicate 8 (cut_pack j)) ls"
  have f: "pack_holder ?e = Some h" "round_idx ?e = r" "\<not> done_drafting ?e"
    "all_packs_by_round ?e = Some ?ps"
    "pick_idx ?e = k" "user_picks ?e = picks"
    by (simp_all add: demo_world_def)
  have u: "?ps ! round_idx ?e = replicate 8 (cut_pack k)"
    using r l lr by (simp add: f)
  have rl: "round_idx ?e < length ?ps" using r l by (simp add: f)
  note A = accepted_uniform[OF k h f(1) f(4) u f(3)]
  show "accepted ?e (int k)" by (rule A(1))
  have w: "demo_world r k False h picks n ls = (zrng n, ?e)"
    by (simp add: demo_world_def)
  have "fst (step arb (demo_world r k False h picks n ls) (int k)) =
          apply_pick (zrng n, ?e) h ?ps k (the (P0 ! k))"
    using fst_step_accepted[OF f(1) f(4) A(1), of arb] A(2) w by simp
  also have "\<dots> = (zrng (n + 7),
            advance (?e\<lparr>user_picks := user_picks ?e @ [the (P0 ! k)],
                        all_packs_by_round :=
                          Some (?ps[round_idx ?e := replicate 8 (cut_pack (Suc k))]),
                        pack_holder := Some (pass_right h)\<rparr>))"
    by (rule apply_pick_uniform[OF k h rl u])
  also have "\<dots> = (if k < 14
            then demo_world r (Suc k) False (pass_right h) (picks @ [the (P0 ! k)]) (n + 7)
                   (ls[r := Suc k])
            else if r < 2
            then demo_world (Suc r) 0 False [0..<num_players] (picks @ [the (P0 ! k)]) (n + 7)
                   (ls[r := 15])
            else demo_world 3 0 True (pass_right h) (picks @ [the (P0 ! k)]) (n + 7)
                   (ls[r := 15]))"
  proof -
    consider "k < 14" | "k = 14" "r < 2" | "k = 14" "r = 2" using r k by linarith
    then show ?thesis
    proof cases
      case 1
      then show ?thesis
        using r
        by (simp add: demo_world_def advance_def Let_def cards_per_pack_def num_packs_def
            map_update)
    next
      case 2
      then show ?thesis
        using r
        by (simp add: demo_world_def advance_def Let_def cards_per_pack_def num_packs_def
            map_update)
    next
      case 3
      then show ?thesis
        using r
        by (simp add: demo_world_def advance_def Let_def cards_per_pack_def num_packs_def
            map_update)
    qed
  qed
  finally show "fst (step arb (demo_world r k False h picks n ls) (int k)) =
           (if k < 14
            then demo_world r (Suc k) False (pass_right h) (picks @ [the (P0 ! k)]) (n + 7)
                   (ls[r := Suc k])
            else if r < 2
            then demo_world (Suc r) 0 False [0..<num_players] (picks @ [the (P0 ! k)]) (n + 7)
                   (ls[r := 15])
            else demo_world 3 0 True (pass_right h) (picks @ [the (P0 ! k)]) (n + 7)
                   (ls[r := 15]))" .
qed

lemma demo_round:
  assumes "r < 3" and "k < 15" and "perm8 h" and "length ls = 3" and "ls ! r = k"
  shows "\<exists>h'. perm8 h' \<and>
           run arb (demo_world r k False h picks n ls) (map int [k..<15]) =
             demo_world (Suc r) 0 (r = 2) h' (picks @ map (\<lambda>j. the (P0 ! j)) [k..<15])
               (n + 7 * (15 - k)) (ls[r := 15]) \<and>
           (r < 2 \<longrightarrow> h' = [0..<num_players]) \<and>
           accepted_count arb (demo_world r k False h picks n ls) (map int [k..<15]) = 15 - k"
  using assms
proof (induction "14 - k" arbitrary: k h picks n ls)
  case 0
  then have k: "k = 14" by simp
  have up: "[k..<15] = [14]" using k by (simp add: upt_rec)
  note S = demo_step[OF "0.prems"(1,2,3,4,5)]
  show ?case
  proof (cases "r < 2")
    case True
    then show ?thesis
      using S k "0.prems"(1) perm8_upt
      by (intro exI[of _ "[0..<num_players]"]) (simp add: up)
  next
    case False
    then have "r = 2" using "0.prems"(1) by simp
    then show ?thesis
      using S k pass_right_perm8[OF "0.prems"(3)]
      by (intro exI[of _ "pass_right h"]) (simp add: up)
  qed
next
  case (Suc d)
  then have k: "k < 14" by simp
  have up: "[k..<15] = k # [Suc k..<15]" using k by (simp add: upt_conv_Cons)
  note S = demo_step[OF Suc.prems(1,2,3,4,5)]
  have d: "d = 14 - Suc k" using Suc.hyps(2) by simp
  have k1: "Suc k < 15" using k by simp
  have l1: "length (ls[r := Suc k]) = 3" using Suc.prems(4) by simp
  have lr1: "ls[r := Suc k] ! r = Suc k" using Suc.prems(1,4) by simp
  from Suc.hyps(1)[OF d Suc.prems(1) k1 pass_right_perm8[OF Suc.prems(3)] l1 lr1,
      of "picks @ [the (P0 ! k)]" "n + 7"]
  obtain h' where H: "perm8 h'"
    "run arb (demo_world r (Suc k) False (pass_right h) (picks @ [the (P0 ! k)]) (n + 7)
        (ls[r := Suc k])) (map int [Suc k..<15]) =
      demo_world (Suc r) 0 (r = 2) h'
        ((picks @ [the (P0 ! k)]) @ map (\<lambda>j. the (P0 ! j)) [Suc k..<15])
        (n + 7 + 7 * (15 - Suc k)) (ls[r := Suc k, r := 15])"
    "r < 2 \<longrightarrow> h' = [0..<num_players]"
    "accepted_count arb (demo_world r (Suc k) False (pass_right h) (picks @ [the (P0 ! k)])
        (n + 7) (ls[r := Suc k])) (map int [Suc k..<15]) = 15 - Suc k"
    by blast
  have n: "n + 7 + 7 * (14 - k) = n + 7 * (15 - k)" "Suc (14 - k) = 15 - k" using k by simp_all
  show ?case
    using H S k
    by (intro exI[of _ h']) (simp add: up n)
qed

lemma run_append: "run arb w (xs @ ys) = run arb (run arb w xs) ys"
  by (induction xs arbitrary: w) simp_all

lemma accepted_count_append:
  "accepted_count arb w (xs @ ys) =
     accepted_count arb w xs + accepted_count arb (run arb w xs) ys"
  by (induction xs arbitrary: w) simp_all

lemma demo_run:
  "\<exists>h'. perm8 h' \<and>
     run arb demo_start demo_actions =
       demo_world 3 0 True h'
         (map (\<lambda>j. the (P0 ! j)) [0..<15] @ map (\<lambda>j. the (P0 ! j)) [0..<15] @
          map (\<lambda>j. the (P0 ! j)) [0..<15])
         675 [15, 15, 15] \<and>
     accepted_count arb demo_start demo_actions = 45"
proof -
  let ?A = "map int [0..<15]" and ?p = "map (\<lambda>j. the (P0 ! j)) [0..<15]"
  from demo_round[of 0 0 "[0..<num_players]" "[0, 0, 0]" arb "[]" 360] perm8_upt
  have 1: "run arb demo_start ?A = demo_world 1 0 False [0..<num_players] ?p 465 [15, 0, 0]"
    "accepted_count arb demo_start ?A = 15"
    by (auto simp: demo_start_eq)
  from demo_round[of 1 0 "[0..<num_players]" "[15, 0, 0]" arb ?p 465] perm8_upt
  have 2: "run arb (demo_world 1 0 False [0..<num_players] ?p 465 [15, 0, 0]) ?A =
             demo_world 2 0 False [0..<num_players] (?p @ ?p) 570 [15, 15, 0]"
    "accepted_count arb (demo_world 1 0 False [0..<num_players] ?p 465 [15, 0, 0]) ?A = 15"
    by (auto simp: numeral_2_eq_2[symmetric])
  from demo_round[of 2 0 "[0..<num_players]" "[15, 15, 0]" arb "?p @ ?p" 570] perm8_upt
  obtain h' where 3: "perm8 h'"
    "run arb (demo_world 2 0 False [0..<num_players] (?p @ ?p) 570 [15, 15, 0]) ?A =
             demo_world 3 0 True h' ((?p @ ?p) @ ?p) 675 [15, 15, 15]"
    "accepted_count arb (demo_world 2 0 False [0..<num_players] (?p @ ?p) 570 [15, 15, 0]) ?A = 15"
    by auto
  show ?thesis
    using 1 2 3
    by (intro exI[of _ h']) (simp add: demo_actions_def run_append accepted_count_append)
qed

lemma demo_names: "distinct (map name demo_cards)"
  by code_simp

text \<open>
  Claim C4, amended. In every pack returned by \<^verbatim>\<open>make_pack\<close>, whatever the pools and
  the random draws, the slots drawn from the common pool hold members of that pool, 10 of
  them or all when there are fewer, and pairwise different identities whenever the common
  pool lists no identity twice; likewise for the 3 slots drawn from the uncommon pool.
  For every catalog in which no two records have the same name, no pool lists an identity
  twice, and the identity of a record occurs exactly once in the pool keyed by the
  record's class (the basic-land pool for a flagged record, else the pool named by its
  lower-cased rarity label) when that key is one of the five pool keys, and in no other
  pool; it occurs in no pool at all when the key is not a pool key.
\<close>

theorem pack_slots_distinct:
  "(\<exists>b c u r.
      fst (make_pack pools g) =
        b @ map Some c @ map Some u @ r @
        replicate (15 - (length b + length c + length u + length r)) None \<and>
      length b \<le> 1 \<and> length r \<le> 1 \<and>
      set c \<subseteq> set (pool pools ''common'') \<and>
      length c = min 10 (length (pool pools ''common'')) \<and>
      (distinct (pool pools ''common'') \<longrightarrow> distinct c) \<and>
      set u \<subseteq> set (pool pools ''uncommon'') \<and>
      length u = min 3 (length (pool pools ''uncommon'')) \<and>
      (distinct (pool pools ''uncommon'') \<longrightarrow> distinct u)) \<and>
   (build_maps cards_data = Inr (m, n) \<longrightarrow> distinct (map name cards_data) \<longrightarrow>
      (\<forall>k. distinct (pool (rarity_pools m) k)) \<and>
      (\<forall>c\<in>set cards_data. \<forall>nm i. name c = Some nm \<longrightarrow> card_id_map m nm = Some i \<longrightarrow>
         (\<forall>k. count_list (pool (rarity_pools m) k) i =
               (if k = pool_of c \<and> k \<in> set pool_keys then 1 else 0))))"
proof -
  have packs: "\<exists>b c u r.
      fst (make_pack pools g) =
        b @ map Some c @ map Some u @ r @
        replicate (15 - (length b + length c + length u + length r)) None \<and>
      length b \<le> 1 \<and> length r \<le> 1 \<and>
      set c \<subseteq> set (pool pools ''common'') \<and>
      length c = min 10 (length (pool pools ''common'')) \<and>
      (distinct (pool pools ''common'') \<longrightarrow> distinct c) \<and>
      set u \<subseteq> set (pool pools ''uncommon'') \<and>
      length u = min 3 (length (pool pools ''uncommon'')) \<and>
      (distinct (pool pools ''uncommon'') \<longrightarrow> distinct u)"
  proof -
    from make_pack_shape[of pools g] obtain b c u r where
      E: "fst (make_pack pools g) =
         b @ map Some c @ map Some u @ r @
         replicate (15 - (length b + length c + length u + length r)) None"
      and L: "length b = (if pool pools ''basic_land'' = [] then 0 else 1)"
         "length c = min 10 (length (pool pools ''common''))"
         "set c \<subseteq> set (pool pools ''common'')"
         "distinct (pool pools ''common'') \<longrightarrow> distinct c"
         "length u = min 3 (length (pool pools ''uncommon''))"
         "set u \<subseteq> set (pool pools ''uncommon'')"
         "distinct (pool pools ''uncommon'') \<longrightarrow> distinct u"
         "length r = (if pool pools ''rare'' @ pool pools ''mythic'' = [] then 0 else 1)"
      by blast
    have "length b \<le> 1" "length r \<le> 1" using L(1,8) by (simp_all split: if_splits)
    then show ?thesis using E L(2-7) by blast
  qed
  have pools: "(\<forall>k. distinct (pool (rarity_pools m) k)) \<and>
      (\<forall>c\<in>set cards_data. \<forall>nm i. name c = Some nm \<longrightarrow> card_id_map m nm = Some i \<longrightarrow>
         (\<forall>k. count_list (pool (rarity_pools m) k) i =
               (if k = pool_of c \<and> k \<in> set pool_keys then 1 else 0)))"
    if B: "build_maps cards_data = Inr (m, n)" and d: "distinct (map name cards_data)"
  proof -
    note P = build_maps_pools[OF B d]
    have dist: "distinct (pool (rarity_pools m) k)" for k
      by (simp add: P(2))
    have one: "count_list (pool (rarity_pools m) k) i =
                 (if k = pool_of c \<and> k \<in> set pool_keys then 1 else 0)"
      if c: "c \<in> set cards_data" and nm: "name c = Some nm" and i: "card_id_map m nm = Some i"
      for c nm i k
    proof -
      from c obtain j where j: "j < length cards_data" "cards_data ! j = c"
        by (auto simp: in_set_conv_nth)
      from P(3)[OF j(1)] j(2) nm i have ij: "i = j" by simp
      show ?thesis
        unfolding P(2)[of k] using j ij
        by (subst count_list_filter_distinct) auto
    qed
    from dist one show ?thesis by blast
  qed
  from packs pools show ?thesis by blast
qed

theorem pack_slots_distinct_witness:
  "(\<exists>m n. build_maps demo_cards = Inr (m, n) \<and> distinct (map name demo_cards) \<and>
      length (pool (rarity_pools m) ''common'') = 11 \<and>
      length (pool (rarity_pools m) ''uncommon'') = 4 \<and>
      distinct (pool (rarity_pools m) ''common'') \<and>
      distinct (pool (rarity_pools m) ''uncommon'') \<and>
      (\<exists>b c u r.
         fst (make_pack (rarity_pools m) mixed_rng) =
           b @ map Some c @ map Some u @ r @
           replicate (15 - (length b + length c + length u + length r)) None \<and>
         length b \<le> 1 \<and> length r \<le> 1 \<and>
         set c \<subseteq> set (pool (rarity_pools m) ''common'') \<and> length c = 10 \<and> distinct c \<and>
         set u \<subseteq> set (pool (rarity_pools m) ''uncommon'') \<and> length u = 3 \<and> distinct u)) \<and>
   (\<exists>m n. build_maps tiny_cards = Inr (m, n) \<and> distinct (map name tiny_cards) \<and>
      count_list (pool (rarity_pools m) ''common'') (the (card_id_map m ''Bear'')) = 1 \<and>
      count_list (pool (rarity_pools m) ''uncommon'') (the (card_id_map m ''Bear'')) = 0 \<and>
      count_list (pool (rarity_pools m) ''uncommon'') (the (card_id_map m ''Elf'')) = 1 \<and>
      (\<forall>k. count_list (pool (rarity_pools m) k) (the (card_id_map m ''Relic'')) = 0))"
proof -
  have A: "\<exists>m n. build_maps demo_cards = Inr (m, n) \<and> distinct (map name demo_cards) \<and>
      length (pool (rarity_pools m) ''common'') = 11 \<and>
      length (pool (rarity_pools m) ''uncommon'') = 4 \<and>
      distinct (pool (rarity_pools m) ''common'') \<and>
      distinct (pool (rarity_pools m) ''uncommon'') \<and>
      (\<exists>b c u r.
         fst (make_pack (rarity_pools m) mixed_rng) =
           b @ map Some c @ map Some u @ r @
           replicate (15 - (length b + length c + length u + length r)) None \<and>
         length b \<le> 1 \<and> length r \<le> 1 \<and>
         set c \<subseteq> set (pool (rarity_pools m) ''common'') \<and> length c = 10 \<and> distinct c \<and>
         set u \<subseteq> set (pool (rarity_pools m) ''uncommon'') \<and> length u = 3 \<and> distinct u)"
  proof -
    have "\<forall>c\<in>set demo_cards. name c \<noteq> None"
      by (simp add: demo_cards_def mk_card_def)
    with build_maps_cases[of demo_cards]
    obtain m n where B: "build_maps demo_cards = Inr (m, n)" by auto
    have env: "rarity_pools demo_env0 = rarity_pools m"
      by (simp add: demo_env0_def DraftEnv_init_def B)
    have len: "length (pool (rarity_pools m) ''common'') = 11"
      "length (pool (rarity_pools m) ''uncommon'') = 4"
      using demo_pools by (simp_all add: pool_keys_def env)
    note T = pack_slots_distinct[of "rarity_pools m" mixed_rng demo_cards m n]
    from T B demo_names have dist: "\<And>k. distinct (pool (rarity_pools m) k)" by blast
    from T obtain b c u r where
      "fst (make_pack (rarity_pools m) mixed_rng) =
           b @ map Some c @ map Some u @ r @
           replicate (15 - (length b + length c + length u + length r)) None"
      "length b \<le> 1" "length r \<le> 1"
      "set c \<subseteq> set (pool (rarity_pools m) ''common'')"
      "length c = min 10 (length (pool (rarity_pools m) ''common''))"
      "distinct (pool (rarity_pools m) ''common'') \<longrightarrow> distinct c"
      "set u \<subseteq> set (pool (rarity_pools m) ''uncommon'')"
      "length u = min 3 (length (pool (rarity_pools m) ''uncommon''))"
      "distinct (pool (rarity_pools m) ''uncommon'') \<longrightarrow> distinct u"
      by blast
    then have "\<exists>b c u r.
         fst (make_pack (rarity_pools m) mixed_rng) =
           b @ map Some c @ map Some u @ r @
           replicate (15 - (length b + length c + length u + length r)) None \<and>
         length b \<le> 1 \<and> length r \<le> 1 \<and>
         set c \<subseteq> set (pool (rarity_pools m) ''common'') \<and> length c = 10 \<and> distinct c \<and>
         set u \<subseteq> set (pool (rarity_pools m) ''uncommon'') \<and> length u = 3 \<and> distinct u"
      using len dist by (intro exI[of _ b] exI[of _ c] exI[of _ u] exI[of _ r]) simp
    with B demo_names len dist show ?thesis by blast
  qed
  have C: "\<exists>m n. build_maps tiny_cards = Inr (m, n) \<and> distinct (map name tiny_cards) \<and>
      count_list (pool (rarity_pools m) ''common'') (the (card_id_map m ''Bear'')) = 1 \<and>
      count_list (pool (rarity_pools m) ''uncommon'') (the (card_id_map m ''Bear'')) = 0 \<and>
      count_list (pool (rarity_pools m) ''uncommon'') (the (card_id_map m ''Elf'')) = 1 \<and>
      (\<forall>k. count_list (pool (rarity_pools m) k) (the (card_id_map m ''Relic'')) = 0)"
  proof -
    have names: "\<forall>c\<in>set tiny_cards. name c \<noteq> None" and d: "distinct (map name tiny_cards)"
      by (simp_all add: tiny_cards_def mk_card_def)
    with build_maps_cases[of tiny_cards]
    obtain m n where B: "build_maps tiny_cards = Inr (m, n)" by auto
    note T = pack_slots_distinct[of "rarity_pools m" zero_rng tiny_cards m n]
    note P = build_maps_pools(3)[OF B d]
    have ids: "card_id_map m ''Bear'' = Some 0" "card_id_map m ''Elf'' = Some 1"
      "card_id_map m ''Relic'' = Some 2"
      using P[of 0] P[of 1] P[of 2] by (simp_all add: tiny_cards_def mk_card_def)
    have po: "pool_of (tiny_cards ! 0) = ''common''" "pool_of (tiny_cards ! 1) = ''uncommon''"
      "pool_of (tiny_cards ! 2) = ''special''"
      using pool_of_tiny by (simp_all add: tiny_cards_def)
    have mem: "tiny_cards ! 0 \<in> set tiny_cards" "tiny_cards ! 1 \<in> set tiny_cards"
      "tiny_cards ! 2 \<in> set tiny_cards"
      by (simp_all add: tiny_cards_def)
    have nms: "name (tiny_cards ! 0) = Some ''Bear''" "name (tiny_cards ! 1) = Some ''Elf''"
      "name (tiny_cards ! 2) = Some ''Relic''"
      by (simp_all add: tiny_cards_def mk_card_def)
    from T B d have C: "\<And>c nm i k. c \<in> set tiny_cards \<Longrightarrow> name c = Some nm \<Longrightarrow>
        card_id_map m nm = Some i \<Longrightarrow>
        count_list (pool (rarity_pools m) k) i =
          (if k = pool_of c \<and> k \<in> set pool_keys then 1 else 0)"
      by blast
    have c1: "count_list (pool (rarity_pools m) ''common'') (the (card_id_map m ''Bear'')) = 1"
      using C[OF mem(1) nms(1) ids(1), of "''common''"] po ids by (simp add: pool_keys_def)
    have c2: "count_list (pool (rarity_pools m) ''uncommon'') (the (card_id_map m ''Bear'')) = 0"
      using C[OF mem(1) nms(1) ids(1), of "''uncommon''"] po ids by (simp add: pool_keys_def)
    have c3: "count_list (pool (rarity_pools m) ''uncommon'') (the (card_id_map m ''Elf'')) = 1"
      using C[OF mem(2) nms(2) ids(2), of "''uncommon''"] po ids by (simp add: pool_keys_def)
    have c4: "count_list (pool (rarity_pools m) k) (the (card_id_map m ''Relic'')) = 0" for k
      using C[OF mem(3) nms(3) ids(3), of k] po ids by (auto simp: pool_keys_def)
    from B d c1 c2 c3 c4 show ?thesis by blast
  qed
  from A C show ?thesis by blast
qed

end
